theory Spec2Isabelle
  imports Main "HOL-Library.Sublist"
begin

section \<open>Values exchanged with the search library\<close>

text \<open>
  Both programs handle the dictionaries returned by the search library
  (\<^verbatim>\<open>ChannelsSearch(...).result()\<close>, \<^verbatim>\<open>PlaylistsSearch(...).result()\<close>) and build
  dictionaries of their own. Python values are dynamically typed, so they are modelled as
  one datatype of JSON-like values; a dictionary is an association list in insertion
  order (its keys are distinct), a string is the list of its UTF-8 bytes.
\<close>

datatype json =
    JNull
  | JNum int
  | JStr string
  | JList "json list"
  | JDict "(string \<times> json) list"

datatype py_error = KeyError | IndexError | TypeError

datatype subscript = Key string | Idx nat

text \<open>
  \<^verbatim>\<open>x[k]\<close>: a missing key of a dictionary raises KeyError (the dictionaries here have
  string keys only, so an integer subscript is a missing key), an index beyond a list or
  a string raises IndexError, a string subscript on a list or a string and any subscript
  on None or a number raise TypeError.
\<close>

fun getitem :: "json \<Rightarrow> subscript \<Rightarrow> py_error + json" where
  "getitem (JDict d) (Key k) = (case map_of d k of None \<Rightarrow> Inl KeyError | Some v \<Rightarrow> Inr v)"
| "getitem (JDict d) (Idx i) = Inl KeyError"
| "getitem (JList xs) (Idx i) = (if i < length xs then Inr (xs ! i) else Inl IndexError)"
| "getitem (JList xs) (Key k) = Inl TypeError"
| "getitem (JStr s) (Idx i) = (if i < length s then Inr (JStr [s ! i]) else Inl IndexError)"
| "getitem (JStr s) (Key k) = Inl TypeError"
| "getitem JNull k = Inl TypeError"
| "getitem (JNum n) k = Inl TypeError"

text \<open>
  \<^verbatim>\<open>for x in v\<close>: a list yields its elements, a dictionary its keys, a string its
  characters; None and numbers are not iterable. The value iterated is never changed
  inside the loops below, so the elements are fixed when the loop starts.
\<close>

fun py_iter :: "json \<Rightarrow> py_error + json list" where
  "py_iter (JList xs) = Inr xs"
| "py_iter (JDict d) = Inr (map (\<lambda>kv. JStr (fst kv)) d)"
| "py_iter (JStr s) = Inr (map (\<lambda>c. JStr [c]) s)"
| "py_iter JNull = Inl TypeError"
| "py_iter (JNum n) = Inl TypeError"

text \<open>Membership in a \<^verbatim>\<open>set\<close> hashes the value: lists and dictionaries are unhashable.\<close>

fun hashable :: "json \<Rightarrow> bool" where
  "hashable (JList xs) = False"
| "hashable (JDict d) = False"
| "hashable v = True"

text \<open>\<^verbatim>\<open>d[k] = v\<close> on a dictionary: an existing key keeps its place, a new key goes last.\<close>

definition dict_setitem :: "(string \<times> json) list \<Rightarrow> string \<Rightarrow> json \<Rightarrow> (string \<times> json) list" where
  "dict_setitem d k v =
     (if k \<in> fst ` set d then map (\<lambda>kv. if fst kv = k then (k, v) else kv) d
      else d @ [(k, v)])"

definition and_then :: "py_error + 'a \<Rightarrow> ('a \<Rightarrow> py_error + 'b) \<Rightarrow> py_error + 'b" where
  "and_then m f = (case m of Inl e \<Rightarrow> Inl e | Inr x \<Rightarrow> f x)"

section \<open>The environment\<close>

text \<open>
  A search is a request to the video platform; its answer is whatever the library's
  \<^verbatim>\<open>result()\<close> returns for that query and limit. The library is not part of the
  repository: it is a parameter of the model, and failures raised inside library calls
  (the network, the file system, the clock) are outside it.
\<close>

datatype request = ChannelsSearch string nat | PlaylistsSearch json nat

type_synonym upstream = "request \<Rightarrow> json"

text \<open>
  The state a run can read or change: the module's global mapping, the files, the lines
  printed, and the searches issued so far, in order.
\<close>

record world =
  categorias_canais :: "(string \<times> string list) list"
  files :: "string \<Rightarrow> json option"
  stdout :: "string list"
  requests :: "request list"

text \<open>The literal both modules assign to \<^verbatim>\<open>categorias_canais\<close> (each has its own copy).\<close>

definition daily_updater_categorias_canais :: "(string \<times> string list) list" where
  "daily_updater_categorias_canais =
     [(''Intelig'' @ [CHR 0xC3, CHR 0xAA] @ ''ncia Artificial'', [''Canal AI'', ''AI News'']),
      (''Marketing Digital'', [''Marketing Total'', ''Growth Hacker''])]"

definition sugerir_playlists_categorias_canais :: "(string \<times> string list) list" where
  "sugerir_playlists_categorias_canais =
     [(''Intelig'' @ [CHR 0xC3, CHR 0xAA] @ ''ncia Artificial'', [''Canal AI'', ''AI News'']),
      (''Marketing Digital'', [''Marketing Total'', ''Growth Hacker''])]"

record datetime =
  year :: nat
  month :: nat
  day :: nat
  hour :: nat
  minute :: nat
  second :: nat

definition digit :: "nat \<Rightarrow> char" where
  "digit n = ''0123456789'' ! (n mod 10)"

definition pad2 :: "nat \<Rightarrow> string" where
  "pad2 n = [digit (n div 10), digit n]"

definition pad4 :: "nat \<Rightarrow> string" where
  "pad4 n = [digit (n div 1000), digit (n div 100), digit (n div 10), digit n]"

text \<open>\<^verbatim>\<open>strftime("%Y-%m-%d_%H-%M-%S")\<close>, for the four-digit years the clock returns.\<close>

definition strftime :: "datetime \<Rightarrow> string" where
  "strftime t =
     pad4 (year t) @ ''-'' @ pad2 (month t) @ ''-'' @ pad2 (day t) @ ''_'' @
     pad2 (hour t) @ ''-'' @ pad2 (minute t) @ ''-'' @ pad2 (second t)"

section \<open>The record built for one playlist\<close>

text \<open>\<^verbatim>\<open>p['thumbnails'][0]['url']\<close>\<close>

definition thumbnail_url :: "json \<Rightarrow> py_error + json" where
  "thumbnail_url p =
     and_then (getitem p (Key ''thumbnails'')) (\<lambda>thumbnails.
     and_then (getitem thumbnails (Idx 0)) (\<lambda>first.
     getitem first (Key ''url'')))"

text \<open>
  The dictionary display of both loops; its values are evaluated left to right.
\<close>

definition playlist_record :: "json \<Rightarrow> json \<Rightarrow> py_error + json" where
  "playlist_record p nome_canal =
     and_then (getitem p (Key ''title'')) (\<lambda>titulo.
     and_then (getitem p (Key ''link'')) (\<lambda>link.
     and_then (thumbnail_url p) (\<lambda>thumbnail.
     Inr (JDict [(''titulo'', titulo), (''link'', link),
                 (''thumbnail'', thumbnail), (''canal'', nome_canal)]))))"

section \<open>daily_updater.py\<close>

text \<open>The loop \<^verbatim>\<open>for p in playlists\<close>; the state is \<^verbatim>\<open>playlists_sugeridas\<close>.\<close>

fun upd_for_p :: "json \<Rightarrow> json list \<Rightarrow> json list \<Rightarrow> py_error + json list" where
  "upd_for_p nome_canal [] playlists_sugeridas = Inr playlists_sugeridas"
| "upd_for_p nome_canal (p # ps) playlists_sugeridas =
     (case playlist_record p nome_canal of
        Inl e \<Rightarrow> Inl e
      | Inr r \<Rightarrow> upd_for_p nome_canal ps (playlists_sugeridas @ [r]))"

text \<open>The loop \<^verbatim>\<open>for c in canais_encontrados\<close>; the state adds the searches issued.\<close>

fun upd_for_c :: "upstream \<Rightarrow> json list \<Rightarrow> json list \<times> request list \<Rightarrow>
    py_error + json list \<times> request list" where
  "upd_for_c up [] s = Inr s"
| "upd_for_c up (c # cs) (playlists_sugeridas, tr) =
     (case getitem c (Key ''title'') of
        Inl e \<Rightarrow> Inl e
      | Inr nome_canal \<Rightarrow>
         (case and_then (getitem (up (PlaylistsSearch nome_canal 5)) (Key ''result'')) py_iter of
            Inl e \<Rightarrow> Inl e
          | Inr playlists \<Rightarrow>
             (case upd_for_p nome_canal playlists playlists_sugeridas of
                Inl e \<Rightarrow> Inl e
              | Inr acc \<Rightarrow> upd_for_c up cs (acc, tr @ [PlaylistsSearch nome_canal 5]))))"

text \<open>The loop \<^verbatim>\<open>for canal in canais\<close>.\<close>

fun upd_for_canal :: "upstream \<Rightarrow> string list \<Rightarrow> json list \<times> request list \<Rightarrow>
    py_error + json list \<times> request list" where
  "upd_for_canal up [] s = Inr s"
| "upd_for_canal up (canal # canais) (playlists_sugeridas, tr) =
     (case and_then (getitem (up (ChannelsSearch canal 3)) (Key ''result'')) py_iter of
        Inl e \<Rightarrow> Inl e
      | Inr canais_encontrados \<Rightarrow>
         (case upd_for_c up canais_encontrados (playlists_sugeridas, tr @ [ChannelsSearch canal 3]) of
            Inl e \<Rightarrow> Inl e
          | Inr s \<Rightarrow> upd_for_canal up canais s))"

text \<open>
  The loop \<^verbatim>\<open>for categoria, canais in categorias_canais.items()\<close>; the state is
  \<^verbatim>\<open>todas_playlists\<close> and the searches issued.
\<close>

fun upd_for_categoria :: "upstream \<Rightarrow> (string \<times> string list) list \<Rightarrow>
    (string \<times> json) list \<times> request list \<Rightarrow> py_error + (string \<times> json) list \<times> request list" where
  "upd_for_categoria up [] s = Inr s"
| "upd_for_categoria up ((categoria, canais) # rest) (todas_playlists, tr) =
     (case upd_for_canal up canais ([], tr) of
        Inl e \<Rightarrow> Inl e
      | Inr (playlists_sugeridas, tr') \<Rightarrow>
          upd_for_categoria up rest
            (dict_setitem todas_playlists categoria (JList playlists_sugeridas), tr'))"

text \<open>
  \<^verbatim>\<open>atualizar_playlists()\<close>: the file holds the value given to \<^verbatim>\<open>json.dump\<close>
  (its text form is not modelled).
\<close>

definition atualizar_playlists :: "upstream \<Rightarrow> datetime \<Rightarrow> world \<Rightarrow> py_error + world" where
  "atualizar_playlists up now w =
     (case upd_for_categoria up (categorias_canais w) ([], requests w) of
        Inl e \<Rightarrow> Inl e
      | Inr (todas_playlists, tr) \<Rightarrow>
          Inr (w\<lparr>files := (files w)(''playlists_'' @ strftime now @ ''.json'' \<mapsto> JDict todas_playlists),
                 stdout := stdout w @ [''Playlists atualizadas com sucesso!''],
                 requests := tr\<rparr>))"

section \<open>sugerir_playlists.py\<close>

text \<open>
  The loop \<^verbatim>\<open>for p in playlists\<close>; the state is \<^verbatim>\<open>playlists_sugeridas\<close> and
  \<^verbatim>\<open>seen_links\<close>.
\<close>

fun api_for_p :: "json \<Rightarrow> json list \<Rightarrow> json list \<times> json set \<Rightarrow>
    py_error + json list \<times> json set" where
  "api_for_p nome_canal [] s = Inr s"
| "api_for_p nome_canal (p # ps) (playlists_sugeridas, seen_links) =
     (case getitem p (Key ''link'') of
        Inl e \<Rightarrow> Inl e
      | Inr link \<Rightarrow>
          if \<not> hashable link then Inl TypeError
          else if link \<notin> seen_links then
            (case playlist_record p nome_canal of
               Inl e \<Rightarrow> Inl e
             | Inr r \<Rightarrow> api_for_p nome_canal ps (playlists_sugeridas @ [r], insert link seen_links))
          else api_for_p nome_canal ps (playlists_sugeridas, seen_links))"

fun api_for_c :: "upstream \<Rightarrow> json list \<Rightarrow> (json list \<times> json set) \<times> request list \<Rightarrow>
    py_error + (json list \<times> json set) \<times> request list" where
  "api_for_c up [] s = Inr s"
| "api_for_c up (c # cs) (s, tr) =
     (case getitem c (Key ''title'') of
        Inl e \<Rightarrow> Inl e
      | Inr nome_canal \<Rightarrow>
         (case and_then (getitem (up (PlaylistsSearch nome_canal 5)) (Key ''result'')) py_iter of
            Inl e \<Rightarrow> Inl e
          | Inr playlists \<Rightarrow>
             (case api_for_p nome_canal playlists s of
                Inl e \<Rightarrow> Inl e
              | Inr s' \<Rightarrow> api_for_c up cs (s', tr @ [PlaylistsSearch nome_canal 5]))))"

fun api_for_canal :: "upstream \<Rightarrow> string list \<Rightarrow> (json list \<times> json set) \<times> request list \<Rightarrow>
    py_error + (json list \<times> json set) \<times> request list" where
  "api_for_canal up [] s = Inr s"
| "api_for_canal up (canal # rest) (s, tr) =
     (case and_then (getitem (up (ChannelsSearch canal 3)) (Key ''result'')) py_iter of
        Inl e \<Rightarrow> Inl e
      | Inr canais \<Rightarrow>
         (case api_for_c up canais (s, tr @ [ChannelsSearch canal 3]) of
            Inl e \<Rightarrow> Inl e
          | Inr s' \<Rightarrow> api_for_canal up rest s'))"

definition categoria_nao_encontrada :: json where
  "categoria_nao_encontrada =
     JDict [(''error'', JStr (''Categoria n'' @ [CHR 0xC3, CHR 0xA3] @ ''o encontrada''))]"

text \<open>\<^verbatim>\<open>sugerir_playlists(categoria)\<close>: the value returned and the world after the call.\<close>

definition sugerir_playlists :: "upstream \<Rightarrow> string \<Rightarrow> world \<Rightarrow> py_error + json \<times> world" where
  "sugerir_playlists up categoria w =
     (if categoria \<notin> fst ` set (categorias_canais w) then Inr (categoria_nao_encontrada, w)
      else
        (case map_of (categorias_canais w) categoria of
           None \<Rightarrow> Inl KeyError
         | Some canais \<Rightarrow>
            (case api_for_canal up canais (([], {}), requests w) of
               Inl e \<Rightarrow> Inl e
             | Inr ((playlists_sugeridas, seen_links), tr) \<Rightarrow>
                 Inr (JList playlists_sugeridas, w\<lparr>requests := tr\<rparr>))))"

section \<open>The nested iteration order\<close>

text \<open>
  The records a search returns (none when the answer has no iterable \<^verbatim>\<open>'result'\<close>), and
  the \<^verbatim>\<open>'title'\<close> and \<^verbatim>\<open>'link'\<close> of a record (None when the key is missing).
\<close>

definition result_items :: "upstream \<Rightarrow> request \<Rightarrow> json list" where
  "result_items up req =
     (case and_then (getitem (up req) (Key ''result'')) py_iter of Inl e \<Rightarrow> [] | Inr xs \<Rightarrow> xs)"

definition title_of :: "json \<Rightarrow> json" where
  "title_of c = (case getitem c (Key ''title'') of Inl e \<Rightarrow> JNull | Inr t \<Rightarrow> t)"

definition link_of :: "json \<Rightarrow> json" where
  "link_of p = (case getitem p (Key ''link'') of Inl e \<Rightarrow> JNull | Inr l \<Rightarrow> l)"

text \<open>
  The pairs of a playlist result and a channel title in the order the three nested loops
  visit them: for each seed channel name in order, for each channel record its search
  returns in order, each playlist record the search on that channel's title returns.
\<close>

definition visited_c :: "upstream \<Rightarrow> json \<Rightarrow> (json \<times> json) list" where
  "visited_c up c = map (\<lambda>p. (p, title_of c)) (result_items up (PlaylistsSearch (title_of c) 5))"

definition visited_canal :: "upstream \<Rightarrow> string \<Rightarrow> (json \<times> json) list" where
  "visited_canal up canal = concat (map (visited_c up) (result_items up (ChannelsSearch canal 3)))"

definition visited :: "upstream \<Rightarrow> string list \<Rightarrow> (json \<times> json) list" where
  "visited up canais = concat (map (visited_canal up) canais)"

definition visited_link :: "json \<times> json \<Rightarrow> json" where
  "visited_link x = link_of (fst x)"

text \<open>
  The searches in that order: the channel search for a seed name, then one playlist search
  for each channel record it returned.
\<close>

definition lookups_canal :: "upstream \<Rightarrow> string \<Rightarrow> request list" where
  "lookups_canal up canal =
     ChannelsSearch canal 3 #
     map (\<lambda>c. PlaylistsSearch (title_of c) 5) (result_items up (ChannelsSearch canal 3))"

definition lookups :: "upstream \<Rightarrow> string list \<Rightarrow> request list" where
  "lookups up canais = concat (map (lookups_canal up) canais)"

text \<open>The record built for a visited pair, and its value when it is built.\<close>

definition build_record :: "json \<times> json \<Rightarrow> py_error + json" where
  "build_record x = playlist_record (fst x) (snd x)"

definition record_of :: "json \<times> json \<Rightarrow> json" where
  "record_of x = (case build_record x of Inl e \<Rightarrow> JNull | Inr r \<Rightarrow> r)"

definition collected :: "upstream \<Rightarrow> string \<times> string list \<Rightarrow> string \<times> json" where
  "collected up cc = (fst cc, JList (map record_of (visited up (snd cc))))"

text \<open>
  Removing all but the first occurrence of each key from a list, and the same with a set
  of keys that count as seen already.
\<close>

fun keep_first :: "('a \<Rightarrow> 'b) \<Rightarrow> 'a list \<Rightarrow> 'a list" where
  "keep_first f [] = []"
| "keep_first f (x # xs) = x # filter (\<lambda>y. f y \<noteq> f x) (keep_first f xs)"

fun drop_seen :: "('a \<Rightarrow> 'b) \<Rightarrow> 'a list \<Rightarrow> 'b set \<Rightarrow> 'a list" where
  "drop_seen f [] S = []"
| "drop_seen f (x # xs) S = (if f x \<in> S then drop_seen f xs S else x # drop_seen f xs (insert (f x) S))"

section \<open>Well-formed search results\<close>

fun has_key :: "json \<Rightarrow> string \<Rightarrow> bool" where
  "has_key (JDict d) k = (k \<in> fst ` set d)"
| "has_key v k = False"

fun is_list :: "json \<Rightarrow> bool" where
  "is_list (JList xs) = True"
| "is_list v = False"

fun first_has_url :: "json \<Rightarrow> bool" where
  "first_has_url (JList (t # ts)) = has_key t ''url''"
| "first_has_url v = False"

text \<open>A non-empty \<^verbatim>\<open>'thumbnails'\<close> list whose first element has a \<^verbatim>\<open>'url'\<close> key.\<close>

definition thumbnails_ok :: "json \<Rightarrow> bool" where
  "thumbnails_ok p =
     (case getitem p (Key ''thumbnails'') of Inl e \<Rightarrow> False | Inr th \<Rightarrow> first_has_url th)"

definition playlist_ok :: "json \<Rightarrow> bool" where
  "playlist_ok p \<longleftrightarrow>
     has_key p ''title'' \<and> has_key p ''link'' \<and> hashable (link_of p) \<and> thumbnails_ok p"

definition channel_ok :: "json \<Rightarrow> bool" where
  "channel_ok c \<longleftrightarrow> has_key c ''title''"

definition result_is_list :: "json \<Rightarrow> bool" where
  "result_is_list r =
     (case getitem r (Key ''result'') of Inl e \<Rightarrow> False | Inr v \<Rightarrow> is_list v)"

text \<open>
  Every answer has a \<^verbatim>\<open>'result'\<close> list; every channel record has a title; every
  playlist record has a title, a link that can be put in a set, and a thumbnail url.
\<close>

definition upstream_ok :: "upstream \<Rightarrow> bool" where
  "upstream_ok up \<longleftrightarrow>
     (\<forall>q n. result_is_list (up (ChannelsSearch q n)) \<and>
            (\<forall>c\<in>set (result_items up (ChannelsSearch q n)). channel_ok c)) \<and>
     (\<forall>q n. result_is_list (up (PlaylistsSearch q n)) \<and>
            (\<forall>p\<in>set (result_items up (PlaylistsSearch q n)). playlist_ok p))"

text \<open>The limit a search asks for, and an upstream that returns no more than asked.\<close>

fun limit :: "request \<Rightarrow> nat" where
  "limit (ChannelsSearch q n) = n"
| "limit (PlaylistsSearch q n) = n"

fun limit_ok :: "request \<Rightarrow> bool" where
  "limit_ok (ChannelsSearch q n) = (n = 3)"
| "limit_ok (PlaylistsSearch q n) = (n = 5)"

definition honours_limit :: "upstream \<Rightarrow> bool" where
  "honours_limit up \<longleftrightarrow> (\<forall>req. length (result_items up req) \<le> limit req)"

section \<open>Reading the outputs\<close>

definition output_file :: "datetime \<Rightarrow> string" where
  "output_file now = ''playlists_'' @ strftime now @ ''.json''"

definition stored_list :: "world \<Rightarrow> string \<Rightarrow> string \<Rightarrow> json list option" where
  "stored_list w f categoria =
     (case files w f of
        Some (JDict todas) \<Rightarrow> (case map_of todas categoria of Some (JList rs) \<Rightarrow> Some rs | _ \<Rightarrow> None)
      | _ \<Rightarrow> None)"

definition batch_list :: "upstream \<Rightarrow> datetime \<Rightarrow> world \<Rightarrow> string \<Rightarrow> json list option" where
  "batch_list up now w categoria =
     (case atualizar_playlists up now w of
        Inl e \<Rightarrow> None
      | Inr w' \<Rightarrow> stored_list w' (output_file now) categoria)"

section \<open>Example inputs\<close>

definition example_now :: datetime where
  "example_now = \<lparr>year = 2024, month = 3, day = 9, hour = 7, minute = 5, second = 0\<rparr>"

definition example_updater_world :: world where
  "example_updater_world =
     \<lparr>categorias_canais = daily_updater_categorias_canais, files = (\<lambda>f. None),
      stdout = [], requests = []\<rparr>"

definition example_api_world :: world where
  "example_api_world =
     \<lparr>categorias_canais = sugerir_playlists_categorias_canais, files = (\<lambda>f. None),
      stdout = [], requests = []\<rparr>"

definition example_playlist_a :: json where
  "example_playlist_a =
     JDict [(''title'', JStr ''Curso A''), (''link'', JStr ''https://yt/playlist?list=A''),
            (''thumbnails'', JList [JDict [(''url'', JStr ''https://img/A.jpg'')]])]"

definition example_playlist_b :: json where
  "example_playlist_b =
     JDict [(''title'', JStr ''Curso B''), (''link'', JStr ''https://yt/playlist?list=B''),
            (''thumbnails'', JList [JDict [(''url'', JStr ''https://img/B.jpg'')]])]"

definition example_upstream :: upstream where
  "example_upstream req =
     (case req of
        ChannelsSearch q n \<Rightarrow>
          JDict [(''result'', JList (take n [JDict [(''title'', JStr ''Canal X'')]]))]
      | PlaylistsSearch q n \<Rightarrow>
          JDict [(''result'', JList (take n [example_playlist_a, example_playlist_b]))])"

definition example_empty_upstream :: upstream where
  "example_empty_upstream req = JDict [(''result'', JList [])]"

definition example_record_a :: json where
  "example_record_a =
     JDict [(''titulo'', JStr ''Curso A''), (''link'', JStr ''https://yt/playlist?list=A''),
            (''thumbnail'', JStr ''https://img/A.jpg''), (''canal'', JStr ''Canal X'')]"

definition example_record_b :: json where
  "example_record_b =
     JDict [(''titulo'', JStr ''Curso B''), (''link'', JStr ''https://yt/playlist?list=B''),
            (''thumbnail'', JStr ''https://img/B.jpg''), (''canal'', JStr ''Canal X'')]"

definition example_marketing_lookups :: "request list" where
  "example_marketing_lookups =
     [ChannelsSearch ''Marketing Total'' 3, PlaylistsSearch (JStr ''Canal X'') 5,
      ChannelsSearch ''Growth Hacker'' 3, PlaylistsSearch (JStr ''Canal X'') 5]"

definition example_research_lookups :: "request list" where
  "example_research_lookups =
     [ChannelsSearch ''Canal AI'' 3, PlaylistsSearch (JStr ''Canal X'') 5,
      ChannelsSearch ''AI News'' 3, PlaylistsSearch (JStr ''Canal X'') 5]"

definition example_updater_result :: world where
  "example_updater_result =
     example_updater_world
       \<lparr>files := (files example_updater_world)
          (''playlists_2024-03-09_07-05-00.json'' \<mapsto>
             JDict [(''Intelig'' @ [CHR 0xC3, CHR 0xAA] @ ''ncia Artificial'',
                     JList [example_record_a, example_record_b, example_record_a, example_record_b]),
                    (''Marketing Digital'',
                     JList [example_record_a, example_record_b, example_record_a, example_record_b])]),
        stdout := [''Playlists atualizadas com sucesso!''],
        requests := example_research_lookups @ example_marketing_lookups\<rparr>"

definition example_empty_result :: world where
  "example_empty_result =
     example_updater_world
       \<lparr>files := (files example_updater_world)
          (''playlists_2024-03-09_07-05-00.json'' \<mapsto>
             JDict [(''Intelig'' @ [CHR 0xC3, CHR 0xAA] @ ''ncia Artificial'', JList []),
                    (''Marketing Digital'', JList [])]),
        stdout := [''Playlists atualizadas com sucesso!''],
        requests := [ChannelsSearch ''Canal AI'' 3, ChannelsSearch ''AI News'' 3,
                     ChannelsSearch ''Marketing Total'' 3, ChannelsSearch ''Growth Hacker'' 3]\<rparr>"

section \<open>Where a record comes from\<close>

text \<open>
  A record with exactly the four fields of the dictionary display, filled from the
  playlist result \<open>p\<close> and the channel title.
\<close>

definition record_matches :: "json \<Rightarrow> json \<Rightarrow> json \<Rightarrow> bool" where
  "record_matches r p nome_canal =
     (case r of
        JDict d \<Rightarrow>
          map fst d = [''titulo'', ''link'', ''thumbnail'', ''canal''] \<and>
          map (\<lambda>kv. Inr (snd kv)) d =
            [getitem p (Key ''title''), getitem p (Key ''link''),
             and_then (getitem p (Key ''thumbnails'')) (\<lambda>thumbnails.
               and_then (getitem thumbnails (Idx 0)) (\<lambda>first. getitem first (Key ''url''))),
             Inr nome_canal]
      | _ \<Rightarrow> False)"

text \<open>
  The record comes from a playlist result of the search on the title of a channel record
  that the channel search for one of the seed names returned.
\<close>

definition emitted_from :: "upstream \<Rightarrow> string list \<Rightarrow> json \<Rightarrow> bool" where
  "emitted_from up canais r \<longleftrightarrow>
     (\<exists>canal\<in>set canais. \<exists>c\<in>set (result_items up (ChannelsSearch canal 3)).
        has_key c ''title'' \<and>
        (\<exists>p\<in>set (result_items up (PlaylistsSearch (title_of c) 5)).
           record_matches r p (title_of c)))"

text \<open>
  A playlist result with an empty thumbnails list that repeats the link of playlist A,
  and an upstream that returns it after playlist A.
\<close>

definition example_playlist_bare :: json where
  "example_playlist_bare =
     JDict [(''title'', JStr ''Curso A''), (''link'', JStr ''https://yt/playlist?list=A''),
            (''thumbnails'', JList [])]"

definition example_bare_upstream :: upstream where
  "example_bare_upstream req =
     (case req of
        ChannelsSearch q n \<Rightarrow>
          JDict [(''result'', JList (take n [JDict [(''title'', JStr ''Canal X'')]]))]
      | PlaylistsSearch q n \<Rightarrow>
          JDict [(''result'', JList (take n [example_playlist_a, example_playlist_bare]))])"

section \<open>Facts about lists\<close>

lemma drop_seen_keep_first: "drop_seen f xs S = filter (\<lambda>y. f y \<notin> S) (keep_first f xs)"
proof (induction xs arbitrary: S)
  case Nil
  show ?case by simp
next
  case (Cons x xs)
  show ?case
  proof (cases "f x \<in> S")
    case True
    then have "filter (\<lambda>y. f y \<notin> S) (filter (\<lambda>y. f y \<noteq> f x) (keep_first f xs))
             = filter (\<lambda>y. f y \<notin> S) (keep_first f xs)"
      by (auto intro!: filter_cong)
    with True Cons show ?thesis by simp
  next
    case False
    have "filter (\<lambda>y. f y \<notin> S) (filter (\<lambda>y. f y \<noteq> f x) (keep_first f xs))
             = filter (\<lambda>y. f y \<notin> insert (f x) S) (keep_first f xs)"
      by (auto intro!: filter_cong)
    with False Cons show ?thesis by simp
  qed
qed

lemma drop_seen_append: "drop_seen f (xs @ ys) S = drop_seen f xs S @ drop_seen f ys (S \<union> f ` set xs)"
  by (induction xs arbitrary: S) (auto simp: insert_absorb)

lemma set_keep_first: "set (keep_first f xs) \<subseteq> set xs"
  by (induction xs) auto

lemma distinct_keep_first: "distinct (map f (keep_first f xs))"
proof (induction xs)
  case Nil show ?case by simp
next
  case (Cons x xs)
  have "distinct (map f (filter (\<lambda>y. f y \<noteq> f x) (keep_first f xs)))"
    using Cons by (simp add: distinct_map_filter)
  then show ?case by auto
qed

lemma keep_first_map: "keep_first f (map g xs) = map g (keep_first (f \<circ> g) xs)"
  by (induction xs) (auto simp: filter_map comp_def)

section \<open>What the loops compute\<close>

lemma upd_for_p_char:
  "upd_for_p nome ps acc = Inr acc' \<Longrightarrow>
     acc' = acc @ map (\<lambda>p. record_of (p, nome)) ps \<and>
     (\<forall>p\<in>set ps. build_record (p, nome) = Inr (record_of (p, nome)))"
proof (induction ps arbitrary: acc)
  case Nil
  then show ?case by simp
next
  case (Cons p ps)
  from Cons.prems obtain r where
    r: "playlist_record p nome = Inr r" and rest: "upd_for_p nome ps (acc @ [r]) = Inr acc'"
    by (auto split: sum.splits)
  from Cons.IH [OF rest] r show ?case
    by (simp add: build_record_def record_of_def)
qed

lemma title_of_Inr: "getitem c (Key ''title'') = Inr t \<Longrightarrow> title_of c = t"
  by (simp add: title_of_def)

lemma upd_for_c_char:
  "upd_for_c up cs (acc, tr) = Inr (acc', tr') \<Longrightarrow>
     acc' = acc @ map record_of (concat (map (visited_c up) cs)) \<and>
     tr' = tr @ map (\<lambda>c. PlaylistsSearch (title_of c) 5) cs \<and>
     (\<forall>x\<in>set (concat (map (visited_c up) cs)). build_record x = Inr (record_of x))"
proof (induction cs arbitrary: acc tr)
  case Nil
  then show ?case by simp
next
  case (Cons c cs)
  from Cons.prems obtain nome ps acc1 where
    t: "getitem c (Key ''title'') = Inr nome" and
    r: "and_then (getitem (up (PlaylistsSearch nome 5)) (Key ''result'')) py_iter = Inr ps" and
    p: "upd_for_p nome ps acc = Inr acc1" and
    rest: "upd_for_c up cs (acc1, tr @ [PlaylistsSearch nome 5]) = Inr (acc', tr')"
    by (auto split: sum.splits)
  have v: "visited_c up c = map (\<lambda>p. (p, nome)) ps"
    using r by (simp add: visited_c_def title_of_Inr [OF t] result_items_def)
  from upd_for_p_char [OF p] Cons.IH [OF rest] v title_of_Inr [OF t]
  show ?case by (auto simp: comp_def)
qed

lemma upd_for_canal_char:
  "upd_for_canal up canais (acc, tr) = Inr (acc', tr') \<Longrightarrow>
     acc' = acc @ map record_of (visited up canais) \<and>
     tr' = tr @ lookups up canais \<and>
     (\<forall>x\<in>set (visited up canais). build_record x = Inr (record_of x))"
proof (induction canais arbitrary: acc tr)
  case Nil
  then show ?case by (simp add: visited_def lookups_def)
next
  case (Cons canal canais)
  from Cons.prems obtain cs acc1 tr1 where
    r: "and_then (getitem (up (ChannelsSearch canal 3)) (Key ''result'')) py_iter = Inr cs" and
    c: "upd_for_c up cs (acc, tr @ [ChannelsSearch canal 3]) = Inr (acc1, tr1)" and
    rest: "upd_for_canal up canais (acc1, tr1) = Inr (acc', tr')"
    by (auto split: sum.splits)
  have v: "visited_canal up canal = concat (map (visited_c up) cs)"
    using r by (simp add: visited_canal_def result_items_def)
  have l: "lookups_canal up canal = ChannelsSearch canal 3 # map (\<lambda>c. PlaylistsSearch (title_of c) 5) cs"
    using r by (simp add: lookups_canal_def result_items_def)
  from upd_for_c_char [OF c] Cons.IH [OF rest] v l
  show ?case by (auto simp: visited_def lookups_def)
qed

lemma api_for_p_char:
  "api_for_p nome ps (acc, seen) = Inr (acc', seen') \<Longrightarrow>
     acc' = acc @ map record_of (drop_seen visited_link (map (\<lambda>p. (p, nome)) ps) seen) \<and>
     seen' = seen \<union> visited_link ` set (map (\<lambda>p. (p, nome)) ps) \<and>
     (\<forall>x\<in>set (drop_seen visited_link (map (\<lambda>p. (p, nome)) ps) seen). build_record x = Inr (record_of x)) \<and>
     (\<forall>p\<in>set ps. getitem p (Key ''link'') = Inr (link_of p) \<and> hashable (link_of p))"
proof (induction ps arbitrary: acc seen)
  case Nil
  then show ?case by simp
next
  case (Cons p ps)
  from Cons.prems obtain l where
    l: "getitem p (Key ''link'') = Inr l" and h: "hashable l"
    by (auto split: sum.splits if_splits)
  have lk: "link_of p = l" using l by (simp add: link_of_def)
  show ?case
  proof (cases "l \<in> seen")
    case True
    with Cons.prems l h have rest: "api_for_p nome ps (acc, seen) = Inr (acc', seen')"
      by simp
    from Cons.IH [OF rest] True l h lk show ?thesis
      by (auto simp: visited_link_def)
  next
    case False
    with Cons.prems l h obtain r where
      r: "playlist_record p nome = Inr r" and
      rest: "api_for_p nome ps (acc @ [r], insert l seen) = Inr (acc', seen')"
      by (auto split: sum.splits)
    from Cons.IH [OF rest] False l h lk r show ?thesis
      by (auto simp: visited_link_def build_record_def record_of_def)
  qed
qed

lemma api_for_c_char:
  "api_for_c up cs ((acc, seen), tr) = Inr ((acc', seen'), tr') \<Longrightarrow>
     acc' = acc @ map record_of (drop_seen visited_link (concat (map (visited_c up) cs)) seen) \<and>
     seen' = seen \<union> visited_link ` set (concat (map (visited_c up) cs)) \<and>
     tr' = tr @ map (\<lambda>c. PlaylistsSearch (title_of c) 5) cs \<and>
     (\<forall>x\<in>set (drop_seen visited_link (concat (map (visited_c up) cs)) seen). build_record x = Inr (record_of x)) \<and>
     (\<forall>x\<in>set (concat (map (visited_c up) cs)).
         getitem (fst x) (Key ''link'') = Inr (visited_link x) \<and> hashable (visited_link x))"
proof (induction cs arbitrary: acc seen tr)
  case Nil
  then show ?case by simp
next
  case (Cons c cs)
  from Cons.prems obtain nome ps acc1 seen1 where
    t: "getitem c (Key ''title'') = Inr nome" and
    r: "and_then (getitem (up (PlaylistsSearch nome 5)) (Key ''result'')) py_iter = Inr ps" and
    p: "api_for_p nome ps (acc, seen) = Inr (acc1, seen1)" and
    rest: "api_for_c up cs ((acc1, seen1), tr @ [PlaylistsSearch nome 5]) = Inr ((acc', seen'), tr')"
    by (auto split: sum.splits)
  have v: "visited_c up c = map (\<lambda>p. (p, nome)) ps"
    using r by (simp add: visited_c_def title_of_Inr [OF t] result_items_def)
  note P = api_for_p_char [OF p, folded v]
  note R = Cons.IH [OF rest]
  have 1: "acc' = acc @ map record_of (drop_seen visited_link (concat (map (visited_c up) (c # cs))) seen)"
    using P R by (simp add: drop_seen_append)
  have 2: "seen' = seen \<union> visited_link ` set (concat (map (visited_c up) (c # cs)))"
    using P R by (simp add: image_Un Un_assoc)
  have 3: "tr' = tr @ map (\<lambda>c. PlaylistsSearch (title_of c) 5) (c # cs)"
    using R title_of_Inr [OF t] by simp
  have 4: "\<forall>x\<in>set (drop_seen visited_link (concat (map (visited_c up) (c # cs))) seen).
             build_record x = Inr (record_of x)"
    using P R by (auto simp: drop_seen_append)
  have 5: "\<forall>x\<in>set (concat (map (visited_c up) (c # cs))).
             getitem (fst x) (Key ''link'') = Inr (visited_link x) \<and> hashable (visited_link x)"
  proof
    fix x assume "x \<in> set (concat (map (visited_c up) (c # cs)))"
    then consider "x \<in> set (visited_c up c)" | "x \<in> set (concat (map (visited_c up) cs))"
      by auto
    then show "getitem (fst x) (Key ''link'') = Inr (visited_link x) \<and> hashable (visited_link x)"
    proof cases
      case 1
      then obtain q where "q \<in> set ps" "x = (q, nome)" using v by auto
      with P show ?thesis by (simp add: visited_link_def)
    next
      case 2
      with R show ?thesis by blast
    qed
  qed
  from 1 2 3 4 5 show ?case by blast
qed

lemma api_for_canal_char:
  "api_for_canal up canais ((acc, seen), tr) = Inr ((acc', seen'), tr') \<Longrightarrow>
     acc' = acc @ map record_of (drop_seen visited_link (visited up canais) seen) \<and>
     seen' = seen \<union> visited_link ` set (visited up canais) \<and>
     tr' = tr @ lookups up canais \<and>
     (\<forall>x\<in>set (drop_seen visited_link (visited up canais) seen). build_record x = Inr (record_of x)) \<and>
     (\<forall>x\<in>set (visited up canais).
         getitem (fst x) (Key ''link'') = Inr (visited_link x) \<and> hashable (visited_link x))"
proof (induction canais arbitrary: acc seen tr)
  case Nil
  then show ?case by (simp add: visited_def lookups_def)
next
  case (Cons canal canais)
  from Cons.prems obtain cs acc1 seen1 tr1 where
    r: "and_then (getitem (up (ChannelsSearch canal 3)) (Key ''result'')) py_iter = Inr cs" and
    c: "api_for_c up cs ((acc, seen), tr @ [ChannelsSearch canal 3]) = Inr ((acc1, seen1), tr1)" and
    rest: "api_for_canal up canais ((acc1, seen1), tr1) = Inr ((acc', seen'), tr')"
    by (auto split: sum.splits)
  have v: "visited_canal up canal = concat (map (visited_c up) cs)"
    using r by (simp add: visited_canal_def result_items_def)
  have l: "lookups_canal up canal =
      ChannelsSearch canal 3 # map (\<lambda>c. PlaylistsSearch (title_of c) 5) cs"
    using r by (simp add: lookups_canal_def result_items_def)
  have vv: "visited up (canal # canais) = visited_canal up canal @ visited up canais"
    by (simp add: visited_def)
  note C = api_for_c_char [OF c, folded v]
  note R = Cons.IH [OF rest]
  have 1: "acc' = acc @ map record_of (drop_seen visited_link (visited up (canal # canais)) seen)"
    using C R by (simp add: vv drop_seen_append)
  have 2: "seen' = seen \<union> visited_link ` set (visited up (canal # canais))"
    using C R by (simp add: vv image_Un Un_assoc)
  have 3: "tr' = tr @ lookups up (canal # canais)"
    using C R l by (simp add: lookups_def)
  have 4: "\<forall>x\<in>set (drop_seen visited_link (visited up (canal # canais)) seen). build_record x = Inr (record_of x)"
    using C R by (auto simp: vv drop_seen_append)
  have 5: "\<forall>x\<in>set (visited up (canal # canais)).
             getitem (fst x) (Key ''link'') = Inr (visited_link x) \<and> hashable (visited_link x)"
    using C R by (auto simp: vv)
  from 1 2 3 4 5 show ?case by blast
qed

lemma upd_for_c_titles:
  "upd_for_c up cs s = Inr s' \<Longrightarrow> \<forall>c\<in>set cs. getitem c (Key ''title'') = Inr (title_of c)"
proof (induction cs arbitrary: s)
  case Nil
  show ?case by simp
next
  case (Cons c cs)
  obtain acc tr where s: "s = (acc, tr)" by (cases s)
  from Cons.prems s obtain nome s1 where
    t: "getitem c (Key ''title'') = Inr nome" and rest: "upd_for_c up cs s1 = Inr s'"
    by (auto split: sum.splits)
  from Cons.IH [OF rest] title_of_Inr [OF t] t show ?case by simp
qed

lemma upd_for_canal_titles:
  "upd_for_canal up canais s = Inr s' \<Longrightarrow>
     \<forall>canal\<in>set canais. \<forall>c\<in>set (result_items up (ChannelsSearch canal 3)).
        getitem c (Key ''title'') = Inr (title_of c)"
proof (induction canais arbitrary: s)
  case Nil
  show ?case by simp
next
  case (Cons canal canais)
  obtain acc tr where s: "s = (acc, tr)" by (cases s)
  from Cons.prems s obtain cs s1 where
    r: "and_then (getitem (up (ChannelsSearch canal 3)) (Key ''result'')) py_iter = Inr cs" and
    c: "upd_for_c up cs (acc, tr @ [ChannelsSearch canal 3]) = Inr s1" and
    rest: "upd_for_canal up canais s1 = Inr s'"
    by (auto split: sum.splits)
  have "result_items up (ChannelsSearch canal 3) = cs"
    using r by (simp add: result_items_def)
  with upd_for_c_titles [OF c] Cons.IH [OF rest] show ?case by simp
qed

lemma api_for_c_titles:
  "api_for_c up cs s = Inr s' \<Longrightarrow> \<forall>c\<in>set cs. getitem c (Key ''title'') = Inr (title_of c)"
proof (induction cs arbitrary: s)
  case Nil
  show ?case by simp
next
  case (Cons c cs)
  obtain a tr where s: "s = (a, tr)" by (cases s)
  from Cons.prems s obtain nome s1 where
    t: "getitem c (Key ''title'') = Inr nome" and rest: "api_for_c up cs s1 = Inr s'"
    by (auto split: sum.splits)
  from Cons.IH [OF rest] title_of_Inr [OF t] t show ?case by simp
qed

lemma api_for_canal_titles:
  "api_for_canal up canais s = Inr s' \<Longrightarrow>
     \<forall>canal\<in>set canais. \<forall>c\<in>set (result_items up (ChannelsSearch canal 3)).
        getitem c (Key ''title'') = Inr (title_of c)"
proof (induction canais arbitrary: s)
  case Nil
  show ?case by simp
next
  case (Cons canal canais)
  obtain a tr where s: "s = (a, tr)" by (cases s)
  from Cons.prems s obtain cs s1 where
    r: "and_then (getitem (up (ChannelsSearch canal 3)) (Key ''result'')) py_iter = Inr cs" and
    c: "api_for_c up cs (a, tr @ [ChannelsSearch canal 3]) = Inr s1" and
    rest: "api_for_canal up canais s1 = Inr s'"
    by (auto split: sum.splits)
  have "result_items up (ChannelsSearch canal 3) = cs"
    using r by (simp add: result_items_def)
  with api_for_c_titles [OF c] Cons.IH [OF rest] show ?case by simp
qed

lemma upd_for_categoria_char:
  "upd_for_categoria up cats (todas, tr) = Inr (todas', tr') \<Longrightarrow>
     todas' = fold (\<lambda>cc d. dict_setitem d (fst cc) (snd (collected up cc))) cats todas \<and>
     tr' = tr @ concat (map (\<lambda>cc. lookups up (snd cc)) cats) \<and>
     (\<forall>cc\<in>set cats. \<forall>x\<in>set (visited up (snd cc)). build_record x = Inr (record_of x)) \<and>
     (\<forall>cc\<in>set cats. \<forall>canal\<in>set (snd cc). \<forall>c\<in>set (result_items up (ChannelsSearch canal 3)).
        getitem c (Key ''title'') = Inr (title_of c))"
proof (induction cats arbitrary: todas tr)
  case Nil
  then show ?case by simp
next
  case (Cons cc cats)
  obtain categoria canais where cc: "cc = (categoria, canais)" by (cases cc)
  from Cons.prems cc obtain ps tr1 where
    c: "upd_for_canal up canais ([], tr) = Inr (ps, tr1)" and
    rest: "upd_for_categoria up cats (dict_setitem todas categoria (JList ps), tr1) = Inr (todas', tr')"
    by (auto split: sum.splits)
  note C = upd_for_canal_char [OF c]
  note T = upd_for_canal_titles [OF c]
  note R = Cons.IH [OF rest]
  have 1: "todas' = fold (\<lambda>cc d. dict_setitem d (fst cc) (snd (collected up cc))) (cc # cats) todas"
    using C R cc by (simp add: collected_def)
  have 2: "tr' = tr @ concat (map (\<lambda>cc. lookups up (snd cc)) (cc # cats))"
    using C R cc by simp
  have 3: "\<forall>cc\<in>set (cc # cats). \<forall>x\<in>set (visited up (snd cc)). build_record x = Inr (record_of x)"
    using C R cc by simp
  have 4: "\<forall>cc\<in>set (cc # cats). \<forall>canal\<in>set (snd cc).
        \<forall>c\<in>set (result_items up (ChannelsSearch canal 3)).
        getitem c (Key ''title'') = Inr (title_of c)"
    using T R cc by simp
  from 1 2 3 4 show ?case by blast
qed

lemma fold_dict_setitem:
  "distinct (map fst cats) \<Longrightarrow> fst ` set cats \<inter> fst ` set d = {} \<Longrightarrow>
     fold (\<lambda>cc d. dict_setitem d (fst cc) (snd (f cc))) cats d = d @ map (\<lambda>cc. (fst cc, snd (f cc))) cats"
proof (induction cats arbitrary: d)
  case Nil
  show ?case by simp
next
  case (Cons cc cats)
  have new: "fst cc \<notin> fst ` set d" using Cons.prems by auto
  then have step: "dict_setitem d (fst cc) (snd (f cc)) = d @ [(fst cc, snd (f cc))]"
    by (simp add: dict_setitem_def)
  have "distinct (map fst cats)" using Cons.prems by simp
  moreover have "fst ` set cats \<inter> fst ` set (d @ [(fst cc, snd (f cc))]) = {}"
    using Cons.prems by auto
  ultimately show ?case using Cons.IH step by simp
qed

section \<open>Evaluating the examples\<close>

lemma example_strftime: "strftime example_now = ''2024-03-09_07-05-00''"
  by (simp add: strftime_def example_now_def pad2_def pad4_def digit_def)

lemmas example_defs = example_upstream_def example_playlist_a_def example_playlist_b_def
  example_updater_world_def example_api_world_def daily_updater_categorias_canais_def
  sugerir_playlists_categorias_canais_def and_then_def playlist_record_def thumbnail_url_def
  dict_setitem_def example_empty_upstream_def

section \<open>The batch updater does not remove repeated links\<close>

text \<open>
  C1. The claim is that no two records of the list stored under a category share a link.
  \<^verbatim>\<open>atualizar_playlists\<close> has no \<^verbatim>\<open>seen_links\<close> set: it appends every record. When
  the two seed names of a category lead to the same channel, whose playlist search
  returns playlists A and B, the list stored under the category holds the links
  A, B, A, B.
\<close>

theorem atualizar_playlists_repeats_links:
  "map_option (map link_of)
     (batch_list example_upstream example_now example_updater_world ''Marketing Digital'') =
   Some [JStr ''https://yt/playlist?list=A'', JStr ''https://yt/playlist?list=B'',
         JStr ''https://yt/playlist?list=A'', JStr ''https://yt/playlist?list=B'']"
  by (simp add: batch_list_def atualizar_playlists_def stored_list_def output_file_def
      example_strftime link_of_def example_defs)

section \<open>An unknown category\<close>

text \<open>
  C3. With the mapping of \<^verbatim>\<open>sugerir_playlists.py\<close> loaded, the endpoint returns the
  error object exactly when the category is neither of the two keys of the mapping, and
  then the world is unchanged: no search is issued, nothing else happens.
\<close>

theorem sugerir_playlists_not_found:
  assumes "categorias_canais w = sugerir_playlists_categorias_canais"
  shows "((\<exists>w'. sugerir_playlists up categoria w = Inr (categoria_nao_encontrada, w')) \<longleftrightarrow>
            categoria \<notin> {''Intelig'' @ [CHR 0xC3, CHR 0xAA] @ ''ncia Artificial'', ''Marketing Digital''}) \<and>
         (categoria \<notin> {''Intelig'' @ [CHR 0xC3, CHR 0xAA] @ ''ncia Artificial'', ''Marketing Digital''} \<longrightarrow>
            sugerir_playlists up categoria w = Inr (categoria_nao_encontrada, w))"
proof -
  have keys: "fst ` set (categorias_canais w) =
      {''Intelig'' @ [CHR 0xC3, CHR 0xAA] @ ''ncia Artificial'', ''Marketing Digital''}"
    using assms by (simp add: sugerir_playlists_categorias_canais_def)
  have miss: "sugerir_playlists up categoria w = Inr (categoria_nao_encontrada, w)"
    if "categoria \<notin> fst ` set (categorias_canais w)"
    using that by (simp add: sugerir_playlists_def)
  have hit: "sugerir_playlists up categoria w \<noteq> Inr (categoria_nao_encontrada, w')"
    if "categoria \<in> fst ` set (categorias_canais w)" for w'
    using that
    by (auto simp: sugerir_playlists_def categoria_nao_encontrada_def
        split: option.splits sum.splits prod.splits)
  from miss hit show ?thesis unfolding keys [symmetric] by blast
qed

theorem sugerir_playlists_not_found_witness:
  "categorias_canais example_api_world = sugerir_playlists_categorias_canais \<and>
   ''Culinaria'' \<notin> {''Intelig'' @ [CHR 0xC3, CHR 0xAA] @ ''ncia Artificial'', ''Marketing Digital''} \<and>
   sugerir_playlists example_upstream ''Culinaria'' example_api_world =
     Inr (categoria_nao_encontrada, example_api_world) \<and>
   requests example_api_world = []"
proof -
  have h: "categorias_canais example_api_world = sugerir_playlists_categorias_canais"
    by (simp add: example_api_world_def)
  show ?thesis
    using h sugerir_playlists_not_found [OF h, of example_upstream "''Culinaria''"]
    by (simp add: example_api_world_def)
qed

section \<open>The query endpoint keeps the first record of each link\<close>

lemma example_sugerir:
  "sugerir_playlists example_upstream ''Marketing Digital'' example_api_world =
     Inr (JList [example_record_a, example_record_b],
          example_api_world\<lparr>requests := example_marketing_lookups\<rparr>)"
  by (simp add: sugerir_playlists_def example_record_a_def example_record_b_def
      example_marketing_lookups_def example_defs)

lemma example_api_canais:
  "map_of (categorias_canais example_api_world) ''Marketing Digital'' =
     Some [''Marketing Total'', ''Growth Hacker'']"
  by (simp add: example_defs)

lemma build_record_link:
  assumes "build_record x = Inr r"
  shows "getitem r (Key ''link'') = getitem (fst x) (Key ''link'')" and "link_of r = visited_link x"
    and "has_key r ''link''"
  using assms
  by (auto simp: build_record_def playlist_record_def and_then_def link_of_def visited_link_def
      split: sum.splits)

lemma sugerir_playlists_char:
  assumes "sugerir_playlists up categoria w = Inr (v, w')"
    and "map_of (categorias_canais w) categoria = Some canais"
  shows "v = JList (map record_of (keep_first visited_link (visited up canais)))"
    and "requests w' = requests w @ lookups up canais"
    and "\<forall>x\<in>set (keep_first visited_link (visited up canais)). build_record x = Inr (record_of x)"
    and "\<forall>x\<in>set (visited up canais).
           getitem (fst x) (Key ''link'') = Inr (visited_link x) \<and> hashable (visited_link x)"
    and "\<forall>canal\<in>set canais. \<forall>c\<in>set (result_items up (ChannelsSearch canal 3)).
           getitem c (Key ''title'') = Inr (title_of c)"
    and "w' = w\<lparr>requests := requests w'\<rparr>"
proof -
  from assms(2) have "categoria \<in> fst ` set (categorias_canais w)"
    by (metis map_of_eq_None_iff option.distinct(1))
  with assms obtain acc seen tr where
    run: "api_for_canal up canais (([], {}), requests w) = Inr ((acc, seen), tr)" and
    v: "v = JList acc" and w': "w' = w\<lparr>requests := tr\<rparr>"
    by (auto simp: sugerir_playlists_def split: sum.splits)
  note C = api_for_canal_char [OF run]
  have ds: "drop_seen visited_link (visited up canais) {} = keep_first visited_link (visited up canais)"
    by (simp add: drop_seen_keep_first)
  show "v = JList (map record_of (keep_first visited_link (visited up canais)))"
    using C v ds by simp
  show "requests w' = requests w @ lookups up canais"
    using C w' by simp
  show "\<forall>x\<in>set (keep_first visited_link (visited up canais)). build_record x = Inr (record_of x)"
    using C ds by simp
  show "\<forall>x\<in>set (visited up canais).
           getitem (fst x) (Key ''link'') = Inr (visited_link x) \<and> hashable (visited_link x)"
    using C by blast
  show "\<forall>canal\<in>set canais. \<forall>c\<in>set (result_items up (ChannelsSearch canal 3)).
           getitem c (Key ''title'') = Inr (title_of c)"
    using api_for_canal_titles [OF run] .
  show "w' = w\<lparr>requests := requests w'\<rparr>"
    using w' by simp
qed

text \<open>
  C2. When the endpoint returns for a category of the mapping, it returns a list whose
  records have pairwise distinct links, and the list is made of the records built for the
  first visited playlist of each link, in the order of the visit.
\<close>

theorem sugerir_playlists_first_occurrences:
  assumes "sugerir_playlists up categoria w = Inr (v, w')"
    and "map_of (categorias_canais w) categoria = Some canais"
  shows "\<exists>rs. v = JList rs \<and> distinct (map link_of rs) \<and> (\<forall>r\<in>set rs. has_key r ''link'') \<and>
           map Inr rs = map build_record (keep_first visited_link (visited up canais))"
proof -
  let ?K = "keep_first visited_link (visited up canais)"
  let ?rs = "map record_of ?K"
  note C = sugerir_playlists_char [OF assms]
  have ok: "\<forall>x\<in>set ?K. build_record x = Inr (record_of x)" by (rule C(3))
  have links: "map link_of ?rs = map visited_link ?K"
    using ok by (simp add: build_record_link(2))
  have "distinct (map link_of ?rs)"
    unfolding links by (rule distinct_keep_first)
  moreover have "\<forall>r\<in>set ?rs. has_key r ''link''"
    using ok by (auto dest: build_record_link(3))
  moreover have "map Inr ?rs = map build_record ?K"
    using ok by simp
  ultimately show ?thesis using C(1) by blast
qed

theorem sugerir_playlists_first_occurrences_witness:
  "sugerir_playlists example_upstream ''Marketing Digital'' example_api_world =
     Inr (JList [example_record_a, example_record_b],
          example_api_world\<lparr>requests := example_marketing_lookups\<rparr>) \<and>
   map_of (categorias_canais example_api_world) ''Marketing Digital'' =
     Some [''Marketing Total'', ''Growth Hacker''] \<and>
   distinct (map link_of [example_record_a, example_record_b]) \<and>
   map Inr [example_record_a, example_record_b] =
     map build_record
       (keep_first visited_link (visited example_upstream [''Marketing Total'', ''Growth Hacker'']))"
  using sugerir_playlists_first_occurrences [OF example_sugerir example_api_canais]
    example_sugerir example_api_canais
  by auto

section \<open>What a run of the batch updater leaves behind\<close>

lemmas example_results = example_record_a_def example_record_b_def example_marketing_lookups_def
  example_research_lookups_def example_updater_result_def example_empty_result_def

lemma example_atualizar:
  "atualizar_playlists example_upstream example_now example_updater_world = Inr example_updater_result"
  by (simp add: atualizar_playlists_def example_strftime example_results example_defs)

lemma example_atualizar_empty:
  "atualizar_playlists example_empty_upstream example_now example_updater_world =
     Inr example_empty_result"
  by (simp add: atualizar_playlists_def example_strftime example_results example_defs)

lemma example_updater_distinct: "distinct (map fst (categorias_canais example_updater_world))"
  by (simp add: example_defs)

lemma example_output_file: "output_file example_now = ''playlists_2024-03-09_07-05-00.json''"
  by (simp add: output_file_def example_strftime)

lemma map_of_collected:
  assumes "distinct (map fst cats)" and "cc \<in> set cats"
  shows "map_of (map (collected up) cats) (fst cc) = Some (JList (map record_of (visited up (snd cc))))"
proof -
  have "fst \<circ> collected up = fst"
    by (simp add: collected_def fun_eq_iff)
  then have "distinct (map fst (map (collected up) cats))"
    using assms(1) by simp
  moreover have "(fst cc, JList (map record_of (visited up (snd cc)))) \<in> set (map (collected up) cats)"
    using assms(2) by (force simp: collected_def)
  ultimately show ?thesis by (simp only: map_of_eq_Some_iff)
qed

lemma atualizar_playlists_run:
  assumes "atualizar_playlists up now w = Inr w'"
  obtains todas tr where
    "upd_for_categoria up (categorias_canais w) ([], requests w) = Inr (todas, tr)"
    "w' = w\<lparr>files := (files w)(''playlists_'' @ strftime now @ ''.json'' \<mapsto> JDict todas),
            stdout := stdout w @ [''Playlists atualizadas com sucesso!''],
            requests := tr\<rparr>"
  using assms by (auto simp: atualizar_playlists_def split: sum.splits)

lemma atualizar_playlists_char:
  assumes "atualizar_playlists up now w = Inr w'" and "distinct (map fst (categorias_canais w))"
  shows "files w' = (files w)(output_file now \<mapsto> JDict (map (collected up) (categorias_canais w)))"
    and "requests w' = requests w @ concat (map (\<lambda>cc. lookups up (snd cc)) (categorias_canais w))"
    and "\<forall>cc\<in>set (categorias_canais w). \<forall>x\<in>set (visited up (snd cc)). build_record x = Inr (record_of x)"
    and "\<forall>cc\<in>set (categorias_canais w). \<forall>canal\<in>set (snd cc).
           \<forall>c\<in>set (result_items up (ChannelsSearch canal 3)).
             getitem c (Key ''title'') = Inr (title_of c)"
    and "\<forall>cc\<in>set (categorias_canais w).
           stored_list w' (output_file now) (fst cc) = Some (map record_of (visited up (snd cc)))"
proof -
  from assms(1) obtain todas tr where
    run: "upd_for_categoria up (categorias_canais w) ([], requests w) = Inr (todas, tr)" and
    w': "w' = w\<lparr>files := (files w)(''playlists_'' @ strftime now @ ''.json'' \<mapsto> JDict todas),
            stdout := stdout w @ [''Playlists atualizadas com sucesso!''],
            requests := tr\<rparr>"
    by (rule atualizar_playlists_run)
  note C = upd_for_categoria_char [OF run]
  have "todas = [] @ map (\<lambda>cc. (fst cc, snd (collected up cc))) (categorias_canais w)"
    using C fold_dict_setitem [OF assms(2), of "[]" "collected up"] by simp
  then have todas: "todas = map (collected up) (categorias_canais w)"
    by (simp add: collected_def)
  show f: "files w' = (files w)(output_file now \<mapsto> JDict (map (collected up) (categorias_canais w)))"
    using w' todas by (simp add: output_file_def)
  show "requests w' = requests w @ concat (map (\<lambda>cc. lookups up (snd cc)) (categorias_canais w))"
    using C w' by simp
  show "\<forall>cc\<in>set (categorias_canais w). \<forall>x\<in>set (visited up (snd cc)). build_record x = Inr (record_of x)"
    using C by blast
  show "\<forall>cc\<in>set (categorias_canais w). \<forall>canal\<in>set (snd cc).
           \<forall>c\<in>set (result_items up (ChannelsSearch canal 3)).
             getitem c (Key ''title'') = Inr (title_of c)"
    using C by blast
  show "\<forall>cc\<in>set (categorias_canais w).
           stored_list w' (output_file now) (fst cc) = Some (map record_of (visited up (snd cc)))"
    using f map_of_collected [OF assms(2)] by (simp add: stored_list_def)
qed

text \<open>
  C5. A run that returns has written a JSON object whose keys are the keys of
  \<^verbatim>\<open>categorias_canais\<close>, in the mapping's order; each key maps to the list of the
  records built from the playlists its seed channel names lead to. A category whose
  searches return nothing is stored with an empty list.
\<close>

theorem atualizar_playlists_grouped:
  assumes "atualizar_playlists up now w = Inr w'" and "distinct (map fst (categorias_canais w))"
  shows "\<exists>todas. files w' (''playlists_'' @ strftime now @ ''.json'') = Some (JDict todas) \<and>
           map fst todas = map fst (categorias_canais w) \<and>
           (\<forall>cc\<in>set (categorias_canais w). \<exists>rs.
               map_of todas (fst cc) = Some (JList rs) \<and>
               map Inr rs = map build_record (visited up (snd cc)))"
proof -
  let ?todas = "map (collected up) (categorias_canais w)"
  note C = atualizar_playlists_char [OF assms]
  have 1: "files w' (''playlists_'' @ strftime now @ ''.json'') = Some (JDict ?todas)"
    using C(1) by (simp add: output_file_def)
  have "fst \<circ> collected up = fst"
    by (simp add: collected_def fun_eq_iff)
  then have 2: "map fst ?todas = map fst (categorias_canais w)"
    by simp
  have 3: "\<exists>rs. map_of ?todas (fst cc) = Some (JList rs) \<and>
               map Inr rs = map build_record (visited up (snd cc))"
    if "cc \<in> set (categorias_canais w)" for cc
  proof -
    have "map Inr (map record_of (visited up (snd cc))) = map build_record (visited up (snd cc))"
      using C(3) that by simp
    with map_of_collected [OF assms(2) that] show ?thesis by blast
  qed
  from 1 2 3 show ?thesis by blast
qed

theorem atualizar_playlists_grouped_witness:
  "atualizar_playlists example_upstream example_now example_updater_world =
     Inr example_updater_result \<and>
   distinct (map fst (categorias_canais example_updater_world)) \<and>
   files example_updater_result ''playlists_2024-03-09_07-05-00.json'' =
     Some (JDict [(''Intelig'' @ [CHR 0xC3, CHR 0xAA] @ ''ncia Artificial'', JList [example_record_a, example_record_b, example_record_a, example_record_b]),
                  (''Marketing Digital'', JList [example_record_a, example_record_b, example_record_a, example_record_b])]) \<and>
   map Inr [example_record_a, example_record_b, example_record_a, example_record_b] =
     map build_record (visited example_upstream [''Marketing Total'', ''Growth Hacker'']) \<and>
   build_record (example_playlist_a, JStr ''Canal X'') = Inr example_record_a \<and>
   atualizar_playlists example_empty_upstream example_now example_updater_world =
     Inr example_empty_result \<and>
   files example_empty_result ''playlists_2024-03-09_07-05-00.json'' =
     Some (JDict [(''Intelig'' @ [CHR 0xC3, CHR 0xAA] @ ''ncia Artificial'', JList []), (''Marketing Digital'', JList [])]) \<and>
   map Inr [] =
     map build_record (visited example_empty_upstream [''Marketing Total'', ''Growth Hacker''])"
proof -
  have run: "atualizar_playlists example_upstream example_now example_updater_world =
      Inr example_updater_result"
    by (simp add: atualizar_playlists_def example_strftime example_results example_defs)
  have run0: "atualizar_playlists example_empty_upstream example_now example_updater_world =
      Inr example_empty_result"
    by (simp add: atualizar_playlists_def example_strftime example_results example_defs)
  have mem: "(''Marketing Digital'', [''Marketing Total'', ''Growth Hacker'']) \<in>
      set (categorias_canais example_updater_world)"
    by (simp add: example_defs)
  have fname: "''playlists_'' @ strftime example_now @ ''.json'' = ''playlists_2024-03-09_07-05-00.json''"
    by (simp add: example_strftime)
  have stored: "files example_updater_result ''playlists_2024-03-09_07-05-00.json'' =
     Some (JDict [(''Intelig'' @ [CHR 0xC3, CHR 0xAA] @ ''ncia Artificial'', JList [example_record_a, example_record_b, example_record_a, example_record_b]),
                  (''Marketing Digital'', JList [example_record_a, example_record_b, example_record_a, example_record_b])])"
    by (simp add: example_updater_result_def)
  have stored0: "files example_empty_result ''playlists_2024-03-09_07-05-00.json'' =
     Some (JDict [(''Intelig'' @ [CHR 0xC3, CHR 0xAA] @ ''ncia Artificial'', JList []), (''Marketing Digital'', JList [])])"
    by (simp add: example_empty_result_def)
  from atualizar_playlists_grouped [OF run example_updater_distinct]
  obtain todas where
    f: "files example_updater_result (''playlists_'' @ strftime example_now @ ''.json'') =
          Some (JDict todas)" and
    r: "\<forall>cc\<in>set (categorias_canais example_updater_world). \<exists>rs.
          map_of todas (fst cc) = Some (JList rs) \<and>
          map Inr rs = map build_record (visited example_upstream (snd cc))"
    by blast
  from f stored have todas: "todas = [(''Intelig'' @ [CHR 0xC3, CHR 0xAA] @ ''ncia Artificial'', JList [example_record_a, example_record_b, example_record_a, example_record_b]),
                  (''Marketing Digital'', JList [example_record_a, example_record_b, example_record_a, example_record_b])]"
    by (simp only: fname option.inject json.inject)
  from r mem obtain rs where
    m: "map_of todas ''Marketing Digital'' = Some (JList rs)" and
    b: "map Inr rs = map build_record (visited example_upstream [''Marketing Total'', ''Growth Hacker''])"
    by force
  from m have "rs = [example_record_a, example_record_b, example_record_a, example_record_b]"
    unfolding todas by simp
  with b have 1: "map Inr [example_record_a, example_record_b, example_record_a, example_record_b] =
     map build_record (visited example_upstream [''Marketing Total'', ''Growth Hacker''])"
    by (simp only:)
  have 2: "build_record (example_playlist_a, JStr ''Canal X'') = Inr example_record_a"
    by (simp add: build_record_def playlist_record_def thumbnail_url_def and_then_def
        example_playlist_a_def example_record_a_def)
  from atualizar_playlists_grouped [OF run0 example_updater_distinct]
  obtain todas0 where
    f0: "files example_empty_result (''playlists_'' @ strftime example_now @ ''.json'') =
          Some (JDict todas0)" and
    r0: "\<forall>cc\<in>set (categorias_canais example_updater_world). \<exists>rs.
          map_of todas0 (fst cc) = Some (JList rs) \<and>
          map Inr rs = map build_record (visited example_empty_upstream (snd cc))"
    by blast
  from f0 stored0 have todas0: "todas0 = [(''Intelig'' @ [CHR 0xC3, CHR 0xAA] @ ''ncia Artificial'', JList []), (''Marketing Digital'', JList [])]"
    by (simp only: fname option.inject json.inject)
  from r0 mem obtain rs0 where
    m0: "map_of todas0 ''Marketing Digital'' = Some (JList rs0)" and
    b0: "map Inr rs0 =
      map build_record (visited example_empty_upstream [''Marketing Total'', ''Growth Hacker''])"
    by force
  from m0 have "rs0 = []"
    unfolding todas0 by simp
  with b0 have 3: "map Inr [] =
     map build_record (visited example_empty_upstream [''Marketing Total'', ''Growth Hacker''])"
    by (simp only:)
  from run example_updater_distinct stored 1 2 run0 stored0 3
  show ?thesis by (intro conjI)
qed

text \<open>
  C6. A run that returns has changed the files at one name only,
  \<^verbatim>\<open>playlists_YYYY-MM-DD_HH-MM-SS.json\<close>, which holds the mapping the loops collected;
  the global \<^verbatim>\<open>categorias_canais\<close> is as before. Besides the file, the run prints one
  line and has issued its searches.
\<close>

theorem atualizar_playlists_only_writes_file:
  assumes "atualizar_playlists up now w = Inr w'"
  shows "\<exists>todas tr.
           upd_for_categoria up (categorias_canais w) ([], requests w) = Inr (todas, tr) \<and>
           files w' =
             (files w)(''playlists_'' @ pad4 (year now) @ ''-'' @ pad2 (month now) @ ''-'' @
                       pad2 (day now) @ ''_'' @ pad2 (hour now) @ ''-'' @ pad2 (minute now) @
                       ''-'' @ pad2 (second now) @ ''.json'' \<mapsto> JDict todas) \<and>
           categorias_canais w' = categorias_canais w \<and>
           stdout w' = stdout w @ [''Playlists atualizadas com sucesso!''] \<and>
           requests w' = tr"
proof -
  from assms obtain todas tr where
    run: "upd_for_categoria up (categorias_canais w) ([], requests w) = Inr (todas, tr)" and
    w': "w' = w\<lparr>files := (files w)(''playlists_'' @ strftime now @ ''.json'' \<mapsto> JDict todas),
            stdout := stdout w @ [''Playlists atualizadas com sucesso!''],
            requests := tr\<rparr>"
    by (rule atualizar_playlists_run)
  from w' have "files w' =
             (files w)(''playlists_'' @ pad4 (year now) @ ''-'' @ pad2 (month now) @ ''-'' @
                       pad2 (day now) @ ''_'' @ pad2 (hour now) @ ''-'' @ pad2 (minute now) @
                       ''-'' @ pad2 (second now) @ ''.json'' \<mapsto> JDict todas)"
    by (simp add: strftime_def)
  with run w' show ?thesis by simp
qed

theorem atualizar_playlists_only_writes_file_witness:
  "atualizar_playlists example_upstream example_now example_updater_world =
     Inr example_updater_result \<and>
   dom (files example_updater_result) = {''playlists_2024-03-09_07-05-00.json''} \<and>
   categorias_canais example_updater_result = daily_updater_categorias_canais"
  using atualizar_playlists_only_writes_file [OF example_atualizar] example_atualizar
  by (auto simp: example_now_def pad2_def pad4_def digit_def example_updater_world_def
      split: if_splits)

section \<open>More facts about the iteration order\<close>

lemma keep_first_cong:
  "\<forall>x\<in>set xs. f x = g x \<Longrightarrow> keep_first f xs = keep_first g xs"
proof (induction xs)
  case Nil
  show ?case by simp
next
  case (Cons x xs)
  then have ih: "keep_first f xs = keep_first g xs" by simp
  have "filter (\<lambda>y. f y \<noteq> f x) (keep_first g xs) = filter (\<lambda>y. g y \<noteq> g x) (keep_first g xs)"
    using Cons.prems set_keep_first [of g xs] by (auto intro!: filter_cong)
  with ih show ?case by simp
qed

lemma subseq_keep_first: "subseq (keep_first f xs) xs"
proof (induction xs)
  case Nil
  show ?case by simp
next
  case (Cons x xs)
  have "subseq (filter (\<lambda>y. f y \<noteq> f x) (keep_first f xs)) (keep_first f xs)"
    by simp
  from subseq_order.order_trans [OF this Cons.IH] show ?case by simp
qed

lemma length_keep_first: "length (keep_first f xs) \<le> length xs"
proof (induction xs)
  case Nil
  show ?case by simp
next
  case (Cons x xs)
  have "length (filter (\<lambda>y. f y \<noteq> f x) (keep_first f xs)) \<le> length (keep_first f xs)"
    by (rule length_filter_le)
  also note Cons.IH
  finally show ?case by simp
qed

lemma length_concat_le:
  "\<forall>x\<in>set xs. length (f x) \<le> k \<Longrightarrow> length (concat (map f xs)) \<le> k * length xs"
  by (induction xs) auto

lemma length_visited:
  assumes "honours_limit up"
  shows "length (visited up canais) \<le> 15 * length canais"
proof -
  have p: "length (visited_c up c) \<le> 5" for c
    using assms [unfolded honours_limit_def, rule_format, of "PlaylistsSearch (title_of c) 5"]
    by (simp add: visited_c_def)
  have c: "length (result_items up (ChannelsSearch canal 3)) \<le> 3" for canal
    using assms [unfolded honours_limit_def, rule_format, of "ChannelsSearch canal 3"] by simp
  have "length (visited_canal up canal) \<le> 15" for canal
  proof -
    have "length (visited_canal up canal) \<le> 5 * length (result_items up (ChannelsSearch canal 3))"
      unfolding visited_canal_def using p by (intro length_concat_le) simp
    with c [of canal] show ?thesis by simp
  qed
  then show ?thesis
    unfolding visited_def by (intro length_concat_le) simp
qed

lemma limit_ok_lookups: "list_all limit_ok (lookups up canais)"
  by (auto simp: lookups_def lookups_canal_def list_all_iff)

lemma visited_mem:
  assumes "x \<in> set (visited up canais)"
  shows "\<exists>canal\<in>set canais. \<exists>c\<in>set (result_items up (ChannelsSearch canal 3)).
           \<exists>p\<in>set (result_items up (PlaylistsSearch (title_of c) 5)). x = (p, title_of c)"
  using assms by (auto simp: visited_def visited_canal_def visited_c_def)

lemma getitem_has_key: "getitem c (Key k) = Inr v \<Longrightarrow> has_key c k"
  by (cases c) (auto split: option.splits dest: map_of_SomeD intro: rev_image_eqI)

lemma build_record_matches: "build_record (p, nome) = Inr r \<Longrightarrow> record_matches r p nome"
  by (auto simp: build_record_def playlist_record_def thumbnail_url_def record_matches_def
      and_then_def split: sum.splits)

lemma emitted_from_visited:
  assumes x: "x \<in> set (visited up canais)"
    and ok: "build_record x = Inr r"
    and titles: "\<forall>canal\<in>set canais. \<forall>c\<in>set (result_items up (ChannelsSearch canal 3)).
           getitem c (Key ''title'') = Inr (title_of c)"
  shows "emitted_from up canais r"
proof -
  from visited_mem [OF x] obtain canal c p where
    canal: "canal \<in> set canais" and c: "c \<in> set (result_items up (ChannelsSearch canal 3))" and
    p: "p \<in> set (result_items up (PlaylistsSearch (title_of c) 5))" and xp: "x = (p, title_of c)"
    by blast
  from titles canal c have "has_key c ''title''"
    by (blast intro: getitem_has_key)
  moreover from ok xp have "record_matches r p (title_of c)"
    by (simp add: build_record_matches)
  ultimately show ?thesis
    unfolding emitted_from_def using canal c p by blast
qed

section \<open>The order of the searches and of the records\<close>

lemma example_stored_marketing:
  "stored_list example_updater_result (output_file example_now) ''Marketing Digital'' =
     Some [example_record_a, example_record_b, example_record_a, example_record_b]"
  by (simp add: stored_list_def example_output_file example_updater_result_def
      example_updater_world_def)

lemma example_marketing_member:
  "(''Marketing Digital'', [''Marketing Total'', ''Growth Hacker'']) \<in>
     set (categorias_canais example_updater_world)"
  by (simp add: example_defs)

text \<open>
  C7. Both entry points search in the same nested order. The searches a returning run
  issues are, for each seed channel name in the mapping's order, the channel search and
  then one playlist search per channel record returned, on that record's title. The
  batch updater stores, for each category, the records of the visited playlists in
  exactly that order; the endpoint returns records of a subsequence of them, in order.
\<close>

theorem nested_lookup_order:
  "(atualizar_playlists up now w = Inr w' \<and> distinct (map fst (categorias_canais w)) \<longrightarrow>
      requests w' = requests w @ concat (map (\<lambda>cc. lookups up (snd cc)) (categorias_canais w)) \<and>
      (\<forall>cc\<in>set (categorias_canais w). \<exists>rs.
          stored_list w' (output_file now) (fst cc) = Some rs \<and>
          map Inr rs = map build_record (visited up (snd cc)))) \<and>
   (sugerir_playlists up categoria w = Inr (v, w2) \<and>
    map_of (categorias_canais w) categoria = Some canais \<longrightarrow>
      requests w2 = requests w @ lookups up canais \<and>
      (\<exists>rs ys. v = JList rs \<and> subseq ys (visited up canais) \<and> map Inr rs = map build_record ys))"
proof (intro conjI impI)
  assume a: "atualizar_playlists up now w = Inr w' \<and> distinct (map fst (categorias_canais w))"
  note C = atualizar_playlists_char [OF conjunct1 [OF a] conjunct2 [OF a]]
  show "requests w' = requests w @ concat (map (\<lambda>cc. lookups up (snd cc)) (categorias_canais w))"
    by (rule C(2))
  show "\<forall>cc\<in>set (categorias_canais w). \<exists>rs.
          stored_list w' (output_file now) (fst cc) = Some rs \<and>
          map Inr rs = map build_record (visited up (snd cc))"
  proof
    fix cc assume cc: "cc \<in> set (categorias_canais w)"
    have "map Inr (map record_of (visited up (snd cc))) = map build_record (visited up (snd cc))"
      using C(3) cc by simp
    with C(5) cc show "\<exists>rs. stored_list w' (output_file now) (fst cc) = Some rs \<and>
          map Inr rs = map build_record (visited up (snd cc))"
      by blast
  qed
next
  assume a: "sugerir_playlists up categoria w = Inr (v, w2) \<and>
    map_of (categorias_canais w) categoria = Some canais"
  note C = sugerir_playlists_char [OF conjunct1 [OF a] conjunct2 [OF a]]
  show "requests w2 = requests w @ lookups up canais"
    by (rule C(2))
  let ?K = "keep_first visited_link (visited up canais)"
  have "map Inr (map record_of ?K) = map build_record ?K"
    using C(3) by simp
  with C(1) subseq_keep_first [of visited_link "visited up canais"]
  show "\<exists>rs ys. v = JList rs \<and> subseq ys (visited up canais) \<and> map Inr rs = map build_record ys"
    by blast
qed

theorem nested_lookup_order_witness:
  "atualizar_playlists example_upstream example_now example_updater_world =
     Inr example_updater_result \<and>
   distinct (map fst (categorias_canais example_updater_world)) \<and>
   sugerir_playlists example_upstream ''Marketing Digital'' example_api_world =
     Inr (JList [example_record_a, example_record_b],
          example_api_world\<lparr>requests := example_marketing_lookups\<rparr>) \<and>
   map_of (categorias_canais example_api_world) ''Marketing Digital'' =
     Some [''Marketing Total'', ''Growth Hacker''] \<and>
   lookups example_upstream [''Marketing Total'', ''Growth Hacker''] = example_marketing_lookups \<and>
   map Inr [example_record_a, example_record_b, example_record_a, example_record_b] =
     map build_record (visited example_upstream [''Marketing Total'', ''Growth Hacker''])"
proof -
  note T1 = nested_lookup_order [of example_upstream example_now example_updater_world
      example_updater_result, THEN conjunct1, rule_format,
      OF conjI [OF example_atualizar example_updater_distinct]]
  note T2 = nested_lookup_order [THEN conjunct2, rule_format,
      OF conjI [OF example_sugerir example_api_canais]]
  from T1 [THEN conjunct2, rule_format, OF example_marketing_member] example_stored_marketing
  have "map Inr [example_record_a, example_record_b, example_record_a, example_record_b] =
     map build_record (visited example_upstream [''Marketing Total'', ''Growth Hacker''])"
    by auto
  moreover from T2 [THEN conjunct1]
  have "lookups example_upstream [''Marketing Total'', ''Growth Hacker''] = example_marketing_lookups"
    by (simp add: example_api_world_def)
  ultimately show ?thesis
    using example_atualizar example_updater_distinct example_sugerir example_api_canais
    by simp
qed

section \<open>The endpoint against the batch updater\<close>

lemma categorias_canais_agree:
  "daily_updater_categorias_canais = sugerir_playlists_categorias_canais"
  by (simp add: daily_updater_categorias_canais_def sugerir_playlists_categorias_canais_def)

lemma keep_first_records:
  assumes "\<forall>x\<in>set xs. build_record x = Inr (record_of x)"
  shows "keep_first link_of (map record_of xs) = map record_of (keep_first visited_link xs)"
proof -
  have "\<forall>x\<in>set xs. (link_of \<circ> record_of) x = visited_link x"
    using assms by (simp add: build_record_link(2))
  then have "keep_first (link_of \<circ> record_of) xs = keep_first visited_link xs"
    by (rule keep_first_cong)
  then show ?thesis by (simp add: keep_first_map)
qed

lemma playlist_record_link:
  "playlist_record p nome = Inr r \<Longrightarrow> getitem p (Key ''link'') = Inr (link_of p)"
  by (auto simp: playlist_record_def and_then_def link_of_def split: sum.splits)

lemma api_for_p_returns:
  "upd_for_p nome ps acc = Inr acc' \<Longrightarrow> \<forall>p\<in>set ps. hashable (link_of p) \<Longrightarrow>
     \<exists>s'. api_for_p nome ps s = Inr s'"
proof (induction ps arbitrary: acc s)
  case Nil
  show ?case by simp
next
  case (Cons p ps)
  obtain a seen where s: "s = (a, seen)" by (cases s)
  from Cons.prems(1) obtain r where
    r: "playlist_record p nome = Inr r" and rest: "upd_for_p nome ps (acc @ [r]) = Inr acc'"
    by (auto split: sum.splits)
  note l = playlist_record_link [OF r]
  from Cons.prems(2) have h: "hashable (link_of p)" and hs: "\<forall>p\<in>set ps. hashable (link_of p)"
    by simp_all
  show ?case
  proof (cases "link_of p \<in> seen")
    case True
    with Cons.IH [OF rest hs, of "(a, seen)"] s l h show ?thesis by simp
  next
    case False
    with Cons.IH [OF rest hs, of "(a @ [r], insert (link_of p) seen)"] s l h r
    show ?thesis by simp
  qed
qed

lemma api_for_c_returns:
  "upd_for_c up cs s = Inr s' \<Longrightarrow>
   \<forall>x\<in>set (concat (map (visited_c up) cs)). hashable (visited_link x) \<Longrightarrow>
     \<exists>t'. api_for_c up cs t = Inr t'"
proof (induction cs arbitrary: s t)
  case Nil
  show ?case by simp
next
  case (Cons c cs)
  obtain acc tr where s: "s = (acc, tr)" by (cases s)
  obtain a tr2 where t: "t = (a, tr2)" by (cases t)
  from Cons.prems(1) s obtain nome ps acc1 where
    ti: "getitem c (Key ''title'') = Inr nome" and
    re: "and_then (getitem (up (PlaylistsSearch nome 5)) (Key ''result'')) py_iter = Inr ps" and
    p: "upd_for_p nome ps acc = Inr acc1" and
    rest: "upd_for_c up cs (acc1, tr @ [PlaylistsSearch nome 5]) = Inr s'"
    by (auto split: sum.splits)
  have v: "visited_c up c = map (\<lambda>p. (p, nome)) ps"
    using re by (simp add: visited_c_def title_of_Inr [OF ti] result_items_def)
  have hp: "\<forall>p\<in>set ps. hashable (link_of p)"
  proof
    fix p assume "p \<in> set ps"
    then have "(p, nome) \<in> set (concat (map (visited_c up) (c # cs)))"
      using v by simp
    with Cons.prems(2) have "hashable (visited_link (p, nome))"
      by blast
    then show "hashable (link_of p)"
      by (simp add: visited_link_def)
  qed
  from Cons.prems(2) have hs: "\<forall>x\<in>set (concat (map (visited_c up) cs)). hashable (visited_link x)"
    by simp
  from api_for_p_returns [OF p hp, of a] obtain a1 where
    ap: "api_for_p nome ps a = Inr a1" by blast
  from Cons.IH [OF rest hs, of "(a1, tr2 @ [PlaylistsSearch nome 5])"] t ti re ap
  show ?case by simp
qed

lemma api_for_canal_returns:
  "upd_for_canal up canais s = Inr s' \<Longrightarrow>
   \<forall>x\<in>set (visited up canais). hashable (visited_link x) \<Longrightarrow>
     \<exists>t'. api_for_canal up canais t = Inr t'"
proof (induction canais arbitrary: s t)
  case Nil
  show ?case by simp
next
  case (Cons canal canais)
  obtain acc tr where s: "s = (acc, tr)" by (cases s)
  obtain a tr2 where t: "t = (a, tr2)" by (cases t)
  from Cons.prems(1) s obtain cs s1 where
    re: "and_then (getitem (up (ChannelsSearch canal 3)) (Key ''result'')) py_iter = Inr cs" and
    c: "upd_for_c up cs (acc, tr @ [ChannelsSearch canal 3]) = Inr s1" and
    rest: "upd_for_canal up canais s1 = Inr s'"
    by (auto split: sum.splits)
  have v: "visited_canal up canal = concat (map (visited_c up) cs)"
    using re by (simp add: visited_canal_def result_items_def)
  from Cons.prems(2) v have hc: "\<forall>x\<in>set (concat (map (visited_c up) cs)). hashable (visited_link x)"
    by (simp add: visited_def)
  from Cons.prems(2) have hs: "\<forall>x\<in>set (visited up canais). hashable (visited_link x)"
    by (simp add: visited_def)
  from api_for_c_returns [OF c hc, of "(a, tr2 @ [ChannelsSearch canal 3])"] obtain t1 where
    ac: "api_for_c up cs (a, tr2 @ [ChannelsSearch canal 3]) = Inr t1" by blast
  from Cons.IH [OF rest hs, of t1] t re ac show ?case by simp
qed

lemma upd_for_categoria_member:
  "upd_for_categoria up cats s = Inr s' \<Longrightarrow> (categoria, canais) \<in> set cats \<Longrightarrow>
     \<exists>tr r. upd_for_canal up canais ([], tr) = Inr r"
proof (induction cats arbitrary: s)
  case Nil
  then show ?case by simp
next
  case (Cons cc cats)
  obtain todas tr where s: "s = (todas, tr)" by (cases s)
  obtain categoria1 canais1 where cc: "cc = (categoria1, canais1)" by (cases cc)
  from Cons.prems(1) s cc obtain ps tr1 where
    c: "upd_for_canal up canais1 ([], tr) = Inr (ps, tr1)" and
    rest: "upd_for_categoria up cats (dict_setitem todas categoria1 (JList ps), tr1) = Inr s'"
    by (auto split: sum.splits)
  from Cons.prems(2) cc consider "canais = canais1" | "(categoria, canais) \<in> set cats"
    by auto
  then show ?case
  proof cases
    case 1
    with c show ?thesis by blast
  next
    case 2
    from Cons.IH [OF rest 2] show ?thesis .
  qed
qed

lemma example_sugerir_skips:
  "sugerir_playlists example_bare_upstream ''Marketing Digital'' example_api_world =
     Inr (JList [example_record_a], example_api_world\<lparr>requests := example_marketing_lookups\<rparr>)"
  by (simp add: sugerir_playlists_def example_bare_upstream_def example_playlist_bare_def
      example_results example_defs)

lemma example_atualizar_fails:
  "atualizar_playlists example_bare_upstream example_now example_updater_world = Inl IndexError"
  by (simp add: atualizar_playlists_def example_bare_upstream_def example_playlist_bare_def
      example_results example_defs)

lemma example_batch_list_fails:
  "batch_list example_bare_upstream example_now example_updater_world ''Marketing Digital'' = None"
  by (simp add: batch_list_def example_atualizar_fails)

text \<open>
  C8. The claim is that, on the same upstream answers, the list the endpoint returns for
  a category equals the batch updater's list for it with all but the first record of
  each link removed. It fails when the batch updater raises: on an upstream whose playlist
  search returns playlist A and then a result with A's link and an empty thumbnails list,
  the endpoint skips the second result and returns the record of A, while the batch
  updater raises IndexError on it and stores no list.
\<close>

theorem endpoint_without_batch_list:
  "sugerir_playlists example_bare_upstream ''Marketing Digital'' example_api_world =
     Inr (JList [example_record_a], example_api_world\<lparr>requests := example_marketing_lookups\<rparr>) \<and>
   atualizar_playlists example_bare_upstream example_now example_updater_world = Inl IndexError \<and>
   batch_list example_bare_upstream example_now example_updater_world ''Marketing Digital'' = None"
  using example_sugerir_skips example_atualizar_fails example_batch_list_fails
  by (intro conjI)

text \<open>
  C8, amended. With the mappings the two modules ship and the same upstream answers,
  whenever the batch updater returns it has stored a list under each category of the
  mapping; the endpoint, if it returns for that category, returns that list with all but
  the first record of each link removed; and it does return when the links of the
  visited playlist results can be put in a set.
\<close>

theorem endpoint_is_deduplicated_batch:
  assumes "atualizar_playlists up now w1 = Inr w1'"
    and "categorias_canais w1 = daily_updater_categorias_canais"
    and "categorias_canais w2 = sugerir_playlists_categorias_canais"
    and "map_of sugerir_playlists_categorias_canais categoria = Some canais"
  shows "\<exists>rs. stored_list w1' (output_file now) categoria = Some rs \<and>
           (\<forall>v w2'. sugerir_playlists up categoria w2 = Inr (v, w2') \<longrightarrow>
              v = JList (keep_first link_of rs)) \<and>
           ((\<forall>x\<in>set (visited up canais). hashable (visited_link x)) \<longrightarrow>
              (\<exists>w2'. sugerir_playlists up categoria w2 = Inr (JList (keep_first link_of rs), w2')))"
proof -
  let ?rs = "map record_of (visited up canais)"
  have d2: "distinct (map fst sugerir_playlists_categorias_canais)"
    by (simp add: sugerir_playlists_categorias_canais_def)
  from assms(4) have cc: "(categoria, canais) \<in> set sugerir_playlists_categorias_canais"
    by (rule map_of_SomeD)
  from assms(3,4) have m: "map_of (categorias_canais w2) categoria = Some canais"
    by simp
  have d1: "distinct (map fst (categorias_canais w1))"
    using d2 assms(2) categorias_canais_agree by simp
  have cc1: "(categoria, canais) \<in> set (categorias_canais w1)"
    using cc assms(2) categorias_canais_agree by simp
  note B = atualizar_playlists_char [OF assms(1) d1]
  from B(5) cc1
  have st: "stored_list w1' (output_file now) categoria = Some ?rs"
    by force
  from B(3) cc1 have ok: "\<forall>x\<in>set (visited up canais). build_record x = Inr (record_of x)"
    by force
  have eq: "v = JList (keep_first link_of ?rs)"
    if run: "sugerir_playlists up categoria w2 = Inr (v, w2')" for v w2'
    using sugerir_playlists_char(1) [OF run m] keep_first_records [OF ok] by simp
  have ret: "\<exists>w2'. sugerir_playlists up categoria w2 = Inr (JList (keep_first link_of ?rs), w2')"
    if h: "\<forall>x\<in>set (visited up canais). hashable (visited_link x)"
  proof -
    from assms(1) obtain todas tr where
      "upd_for_categoria up (categorias_canais w1) ([], requests w1) = Inr (todas, tr)"
      by (rule atualizar_playlists_run)
    from upd_for_categoria_member [OF this cc1] obtain tr1 r where
      "upd_for_canal up canais ([], tr1) = Inr r" by blast
    from api_for_canal_returns [OF this h, of "(([], {}), requests w2)"]
    obtain acc seen tr2 where
      "api_for_canal up canais (([], {}), requests w2) = Inr ((acc, seen), tr2)"
      by (metis surj_pair)
    moreover from m have "categoria \<in> fst ` set (categorias_canais w2)"
      by (metis map_of_eq_None_iff option.distinct(1))
    ultimately have run: "sugerir_playlists up categoria w2 = Inr (JList acc, w2\<lparr>requests := tr2\<rparr>)"
      using m by (simp add: sugerir_playlists_def)
    from eq [OF run] run show ?thesis by blast
  qed
  from st eq ret show ?thesis by blast
qed

theorem endpoint_is_deduplicated_batch_witness:
  "atualizar_playlists example_upstream example_now example_updater_world =
     Inr example_updater_result \<and>
   categorias_canais example_updater_world = daily_updater_categorias_canais \<and>
   categorias_canais example_api_world = sugerir_playlists_categorias_canais \<and>
   map_of sugerir_playlists_categorias_canais ''Marketing Digital'' =
     Some [''Marketing Total'', ''Growth Hacker''] \<and>
   sugerir_playlists example_upstream ''Marketing Digital'' example_api_world =
     Inr (JList [example_record_a, example_record_b],
          example_api_world\<lparr>requests := example_marketing_lookups\<rparr>) \<and>
   stored_list example_updater_result (output_file example_now) ''Marketing Digital'' =
     Some [example_record_a, example_record_b, example_record_a, example_record_b] \<and>
   [example_record_a, example_record_b] = keep_first link_of [example_record_a, example_record_b, example_record_a, example_record_b]"
proof -
  have h2: "categorias_canais example_updater_world = daily_updater_categorias_canais"
    by (simp add: example_updater_world_def)
  have h3: "categorias_canais example_api_world = sugerir_playlists_categorias_canais"
    by (simp add: example_api_world_def)
  have h4: "map_of sugerir_playlists_categorias_canais ''Marketing Digital'' =
     Some [''Marketing Total'', ''Growth Hacker'']"
    by (simp add: sugerir_playlists_categorias_canais_def)
  from endpoint_is_deduplicated_batch [OF example_atualizar h2 h3 h4]
  obtain rs where
    rs: "stored_list example_updater_result (output_file example_now) ''Marketing Digital'' = Some rs"
    and v: "\<forall>v w2'. sugerir_playlists example_upstream ''Marketing Digital'' example_api_world =
              Inr (v, w2') \<longrightarrow> v = JList (keep_first link_of rs)"
    by blast
  from rs have "rs = [example_record_a, example_record_b, example_record_a, example_record_b]"
    by (simp only: example_stored_marketing option.inject)
  moreover from v example_sugerir
  have "JList [example_record_a, example_record_b] = JList (keep_first link_of rs)"
    by blast
  ultimately have "[example_record_a, example_record_b] = keep_first link_of [example_record_a, example_record_b, example_record_a, example_record_b]"
    by (simp only: json.inject)
  with example_atualizar h2 h3 h4 example_sugerir example_stored_marketing
  show ?thesis by (intro conjI)
qed

section \<open>The fields of a record\<close>

text \<open>
  C9. Every record either entry point emits has exactly the fields \<^verbatim>\<open>titulo\<close>,
  \<^verbatim>\<open>link\<close>, \<^verbatim>\<open>thumbnail\<close>, \<^verbatim>\<open>canal\<close>, in that order: the title and the link of a
  playlist result, the url of the first element of its thumbnails, and the title of the
  channel record whose playlists were searched, a record that the channel search for one
  of the category's seed names returned.
\<close>

theorem record_fields:
  "(atualizar_playlists up now w = Inr w' \<and> distinct (map fst (categorias_canais w)) \<longrightarrow>
      (\<forall>cc\<in>set (categorias_canais w). \<exists>rs.
          stored_list w' (output_file now) (fst cc) = Some rs \<and>
          (\<forall>r\<in>set rs. emitted_from up (snd cc) r))) \<and>
   (sugerir_playlists up categoria w = Inr (v, w2) \<and>
    map_of (categorias_canais w) categoria = Some canais \<longrightarrow>
      (\<exists>rs. v = JList rs \<and> (\<forall>r\<in>set rs. emitted_from up canais r)))"
proof (intro conjI impI)
  assume a: "atualizar_playlists up now w = Inr w' \<and> distinct (map fst (categorias_canais w))"
  note C = atualizar_playlists_char [OF conjunct1 [OF a] conjunct2 [OF a]]
  show "\<forall>cc\<in>set (categorias_canais w). \<exists>rs.
          stored_list w' (output_file now) (fst cc) = Some rs \<and>
          (\<forall>r\<in>set rs. emitted_from up (snd cc) r)"
  proof
    fix cc assume cc: "cc \<in> set (categorias_canais w)"
    have "\<forall>r\<in>set (map record_of (visited up (snd cc))). emitted_from up (snd cc) r"
    proof
      fix r assume "r \<in> set (map record_of (visited up (snd cc)))"
      then obtain x where x: "x \<in> set (visited up (snd cc))" and r: "r = record_of x"
        by auto
      from C(3) cc x r have ok: "build_record x = Inr r" by simp
      from C(4) cc have "\<forall>canal\<in>set (snd cc). \<forall>c\<in>set (result_items up (ChannelsSearch canal 3)).
           getitem c (Key ''title'') = Inr (title_of c)"
        by blast
      from emitted_from_visited [OF x ok this] show "emitted_from up (snd cc) r" .
    qed
    with C(5) cc show "\<exists>rs. stored_list w' (output_file now) (fst cc) = Some rs \<and>
          (\<forall>r\<in>set rs. emitted_from up (snd cc) r)"
      by blast
  qed
next
  assume a: "sugerir_playlists up categoria w = Inr (v, w2) \<and>
    map_of (categorias_canais w) categoria = Some canais"
  note C = sugerir_playlists_char [OF conjunct1 [OF a] conjunct2 [OF a]]
  let ?K = "keep_first visited_link (visited up canais)"
  have "\<forall>r\<in>set (map record_of ?K). emitted_from up canais r"
  proof
    fix r assume "r \<in> set (map record_of ?K)"
    then obtain x where xk: "x \<in> set ?K" and r: "r = record_of x"
      by auto
    from xk set_keep_first [of visited_link "visited up canais"]
    have x: "x \<in> set (visited up canais)" by blast
    from C(3) xk r have ok: "build_record x = Inr r" by simp
    from emitted_from_visited [OF x ok C(5)] show "emitted_from up canais r" .
  qed
  with C(1) show "\<exists>rs. v = JList rs \<and> (\<forall>r\<in>set rs. emitted_from up canais r)"
    by blast
qed

theorem record_fields_witness:
  "atualizar_playlists example_upstream example_now example_updater_world =
     Inr example_updater_result \<and>
   distinct (map fst (categorias_canais example_updater_world)) \<and>
   sugerir_playlists example_upstream ''Marketing Digital'' example_api_world =
     Inr (JList [example_record_a, example_record_b],
          example_api_world\<lparr>requests := example_marketing_lookups\<rparr>) \<and>
   map_of (categorias_canais example_api_world) ''Marketing Digital'' =
     Some [''Marketing Total'', ''Growth Hacker''] \<and>
   emitted_from example_upstream [''Marketing Total'', ''Growth Hacker''] example_record_a \<and>
   emitted_from example_upstream [''Marketing Total'', ''Growth Hacker''] example_record_b \<and>
   getitem example_record_a (Key ''canal'') = Inr (JStr ''Canal X'')"
proof -
  note T2 = record_fields [THEN conjunct2, rule_format,
      OF conjI [OF example_sugerir example_api_canais]]
  then obtain rs where
    v: "JList [example_record_a, example_record_b] = JList rs" and
    e: "\<forall>r\<in>set rs. emitted_from example_upstream [''Marketing Total'', ''Growth Hacker''] r"
    by blast
  from v have "rs = [example_record_a, example_record_b]"
    by (simp only: json.inject)
  with e have "emitted_from example_upstream [''Marketing Total'', ''Growth Hacker''] example_record_a"
    and "emitted_from example_upstream [''Marketing Total'', ''Growth Hacker''] example_record_b"
    by simp_all
  moreover have "getitem example_record_a (Key ''canal'') = Inr (JStr ''Canal X'')"
    by (simp add: example_record_a_def)
  ultimately show ?thesis
    using example_atualizar example_updater_distinct example_sugerir example_api_canais
    by (intro conjI)
qed

section \<open>The limits of the searches\<close>

lemma limit_ok_all_lookups: "list_all limit_ok (concat (map (\<lambda>cc. lookups up (snd cc)) cats))"
  by (induction cats) (simp_all add: limit_ok_lookups)

lemma example_honours_limit: "honours_limit example_upstream"
  unfolding honours_limit_def
proof
  fix req
  show "length (result_items example_upstream req) \<le> limit req"
    by (cases req) (simp_all add: result_items_def example_upstream_def and_then_def)
qed

text \<open>
  C4. Every channel search a run issues asks for 3 records and every playlist search
  for 5. With an upstream that returns no more records than the limit asked for, a
  category with \<open>n\<close> seed names leads to at most \<open>15 * n\<close> visited playlists: the
  list the batch updater stores and the list the endpoint returns have at most
  \<open>15 * n\<close> records.
\<close>

theorem result_limits:
  assumes "honours_limit up"
  shows "(atualizar_playlists up now w = Inr w' \<and> distinct (map fst (categorias_canais w)) \<longrightarrow>
           (\<exists>new. requests w' = requests w @ new \<and> list_all limit_ok new) \<and>
           (\<forall>cc\<in>set (categorias_canais w). \<exists>rs.
               stored_list w' (output_file now) (fst cc) = Some rs \<and>
               length rs \<le> 15 * length (snd cc))) \<and>
         (sugerir_playlists up categoria w = Inr (v, w2) \<and>
          map_of (categorias_canais w) categoria = Some canais \<longrightarrow>
           (\<exists>new. requests w2 = requests w @ new \<and> list_all limit_ok new) \<and>
           length (visited up canais) \<le> 15 * length canais \<and>
           (\<exists>rs. v = JList rs \<and> length rs \<le> 15 * length canais))"
proof (intro conjI impI)
  assume a: "atualizar_playlists up now w = Inr w' \<and> distinct (map fst (categorias_canais w))"
  note C = atualizar_playlists_char [OF conjunct1 [OF a] conjunct2 [OF a]]
  from C(2) limit_ok_all_lookups [of up "categorias_canais w"]
  show "\<exists>new. requests w' = requests w @ new \<and> list_all limit_ok new"
    by blast
  show "\<forall>cc\<in>set (categorias_canais w). \<exists>rs.
               stored_list w' (output_file now) (fst cc) = Some rs \<and>
               length rs \<le> 15 * length (snd cc)"
  proof
    fix cc assume cc: "cc \<in> set (categorias_canais w)"
    have "length (map record_of (visited up (snd cc))) \<le> 15 * length (snd cc)"
      using length_visited [OF assms, of "snd cc"] by simp
    with C(5) cc show "\<exists>rs. stored_list w' (output_file now) (fst cc) = Some rs \<and>
               length rs \<le> 15 * length (snd cc)"
      by blast
  qed
next
  assume a: "sugerir_playlists up categoria w = Inr (v, w2) \<and>
          map_of (categorias_canais w) categoria = Some canais"
  note C = sugerir_playlists_char [OF conjunct1 [OF a] conjunct2 [OF a]]
  from C(2) limit_ok_lookups [of up canais]
  show "\<exists>new. requests w2 = requests w @ new \<and> list_all limit_ok new"
    by blast
  show v: "length (visited up canais) \<le> 15 * length canais"
    by (rule length_visited [OF assms])
  have "length (map record_of (keep_first visited_link (visited up canais))) \<le>
      length (visited up canais)"
    by (simp add: length_keep_first)
  with v have "length (map record_of (keep_first visited_link (visited up canais))) \<le>
      15 * length canais"
    by linarith
  with C(1) show "\<exists>rs. v = JList rs \<and> length rs \<le> 15 * length canais"
    by blast
qed

theorem result_limits_witness:
  "honours_limit example_upstream \<and>
   atualizar_playlists example_upstream example_now example_updater_world =
     Inr example_updater_result \<and>
   distinct (map fst (categorias_canais example_updater_world)) \<and>
   sugerir_playlists example_upstream ''Marketing Digital'' example_api_world =
     Inr (JList [example_record_a, example_record_b],
          example_api_world\<lparr>requests := example_marketing_lookups\<rparr>) \<and>
   map_of (categorias_canais example_api_world) ''Marketing Digital'' =
     Some [''Marketing Total'', ''Growth Hacker''] \<and>
   length (visited example_upstream [''Marketing Total'', ''Growth Hacker'']) \<le> 30 \<and>
   list_all limit_ok example_marketing_lookups"
proof -
  note T2 = result_limits [OF example_honours_limit, THEN conjunct2, rule_format,
      OF conjI [OF example_sugerir example_api_canais]]
  from T2 have "length (visited example_upstream [''Marketing Total'', ''Growth Hacker'']) \<le> 30"
    by simp
  moreover from T2 obtain new where
    "requests (example_api_world\<lparr>requests := example_marketing_lookups\<rparr>) =
       requests example_api_world @ new" and "list_all limit_ok new"
    by blast
  then have "list_all limit_ok example_marketing_lookups"
    by (simp add: example_api_world_def)
  ultimately show ?thesis
    using example_honours_limit example_atualizar example_updater_distinct example_sugerir
      example_api_canais
    by (intro conjI)
qed

section \<open>Well-formed results let both entry points return\<close>

lemma has_key_getitem: "has_key j k \<longleftrightarrow> (\<exists>v. getitem j (Key k) = Inr v)"
proof (cases j)
  case (JDict d)
  have "k \<in> fst ` set d \<longleftrightarrow> map_of d k \<noteq> None"
    by (simp add: map_of_eq_None_iff)
  then show ?thesis using JDict by (auto split: option.splits)
qed simp_all

lemma thumbnails_ok_iff: "thumbnails_ok p \<longleftrightarrow> (\<exists>u. thumbnail_url p = Inr u)"
proof (cases "getitem p (Key ''thumbnails'')")
  case (Inl e)
  then show ?thesis by (simp add: thumbnails_ok_def thumbnail_url_def and_then_def)
next
  case (Inr th)
  have "first_has_url th \<longleftrightarrow>
      (\<exists>u. and_then (getitem th (Idx 0)) (\<lambda>first. getitem first (Key ''url'')) = Inr u)"
  proof (cases th)
    case (JList ts)
    then show ?thesis
      by (cases ts) (simp_all add: and_then_def has_key_getitem)
  next
    case (JStr s)
    then show ?thesis by (simp add: and_then_def)
  qed (simp_all add: and_then_def)
  with Inr show ?thesis by (simp add: thumbnails_ok_def thumbnail_url_def and_then_def)
qed

lemma playlist_record_ok:
  assumes "playlist_ok p"
  shows "\<exists>r. playlist_record p nome = Inr r"
proof -
  from assms obtain t l u where
    "getitem p (Key ''title'') = Inr t" "getitem p (Key ''link'') = Inr l" "thumbnail_url p = Inr u"
    unfolding playlist_ok_def has_key_getitem thumbnails_ok_iff by blast
  then show ?thesis by (simp add: playlist_record_def and_then_def)
qed

lemma playlist_record_fails:
  assumes "\<not> thumbnails_ok p"
  shows "\<exists>e. playlist_record p nome = Inl e"
proof -
  from assms obtain e where "thumbnail_url p = Inl e"
    unfolding thumbnails_ok_iff by (cases "thumbnail_url p") auto
  then show ?thesis
    by (auto simp: playlist_record_def and_then_def split: sum.splits)
qed

lemma upd_for_p_ok:
  "\<forall>p\<in>set ps. playlist_ok p \<Longrightarrow> \<exists>acc'. upd_for_p nome ps acc = Inr acc'"
proof (induction ps arbitrary: acc)
  case Nil
  show ?case by simp
next
  case (Cons p ps)
  from Cons.prems obtain r where r: "playlist_record p nome = Inr r"
    using playlist_record_ok [of p nome] by auto
  from Cons.prems have "\<forall>p\<in>set ps. playlist_ok p" by simp
  from Cons.IH [OF this, of "acc @ [r]"] r show ?case by simp
qed

lemma api_for_p_ok:
  "\<forall>p\<in>set ps. playlist_ok p \<Longrightarrow> \<exists>s'. api_for_p nome ps s = Inr s'"
proof (induction ps arbitrary: s)
  case Nil
  show ?case by simp
next
  case (Cons p ps)
  obtain acc seen where s: "s = (acc, seen)" by (cases s)
  from Cons.prems have ok: "playlist_ok p" and rest: "\<forall>p\<in>set ps. playlist_ok p" by simp_all
  from ok obtain l where l: "getitem p (Key ''link'') = Inr l"
    unfolding playlist_ok_def has_key_getitem by blast
  with ok have h: "hashable l" by (simp add: playlist_ok_def link_of_def)
  from playlist_record_ok [OF ok, of nome] obtain r where r: "playlist_record p nome = Inr r"
    by blast
  show ?case
  proof (cases "l \<in> seen")
    case True
    with Cons.IH [OF rest, of "(acc, seen)"] s l h show ?thesis by simp
  next
    case False
    with Cons.IH [OF rest, of "(acc @ [r], insert l seen)"] s l h r show ?thesis by simp
  qed
qed

lemma result_is_list_items:
  assumes "result_is_list (up req)"
  shows "and_then (getitem (up req) (Key ''result'')) py_iter = Inr (result_items up req)"
proof -
  from assms obtain xs where "getitem (up req) (Key ''result'') = Inr (JList xs)"
    unfolding result_is_list_def
    by (cases "getitem (up req) (Key ''result'')"; simp) (metis is_list.elims(2))
  then show ?thesis by (simp add: result_items_def and_then_def)
qed

lemma upd_for_c_ok:
  assumes "upstream_ok up"
  shows "\<forall>c\<in>set cs. channel_ok c \<Longrightarrow> \<exists>s'. upd_for_c up cs s = Inr s'"
proof (induction cs arbitrary: s)
  case Nil
  show ?case by simp
next
  case (Cons c cs)
  obtain acc tr where s: "s = (acc, tr)" by (cases s)
  from Cons.prems obtain nome where t: "getitem c (Key ''title'') = Inr nome"
    unfolding channel_ok_def has_key_getitem by auto
  let ?req = "PlaylistsSearch nome 5"
  from assms have rl: "result_is_list (up ?req)" and
    ps: "\<forall>p\<in>set (result_items up ?req). playlist_ok p"
    unfolding upstream_ok_def by blast+
  note r = result_is_list_items [of up ?req, OF rl]
  from upd_for_p_ok [OF ps, of nome acc] obtain acc1 where
    p: "upd_for_p nome (result_items up ?req) acc = Inr acc1" by blast
  from Cons.prems have "\<forall>c\<in>set cs. channel_ok c" by simp
  from Cons.IH [OF this, of "(acc1, tr @ [?req])"] s t r p show ?case by simp
qed

lemma upd_for_canal_ok:
  assumes "upstream_ok up"
  shows "\<exists>s'. upd_for_canal up canais s = Inr s'"
proof (induction canais arbitrary: s)
  case Nil
  show ?case by simp
next
  case (Cons canal canais)
  obtain acc tr where s: "s = (acc, tr)" by (cases s)
  let ?req = "ChannelsSearch canal 3"
  from assms have rl: "result_is_list (up ?req)" and
    cs: "\<forall>c\<in>set (result_items up ?req). channel_ok c"
    unfolding upstream_ok_def by blast+
  note r = result_is_list_items [of up ?req, OF rl]
  from upd_for_c_ok [OF assms cs, of "(acc, tr @ [?req])"] obtain s1 where
    c: "upd_for_c up (result_items up ?req) (acc, tr @ [?req]) = Inr s1" by blast
  from Cons.IH [of s1] s r c show ?case by simp
qed

lemma upd_for_categoria_ok:
  assumes "upstream_ok up"
  shows "\<exists>s'. upd_for_categoria up cats s = Inr s'"
proof (induction cats arbitrary: s)
  case Nil
  show ?case by simp
next
  case (Cons cc cats)
  obtain todas tr where s: "s = (todas, tr)" by (cases s)
  obtain categoria canais where cc: "cc = (categoria, canais)" by (cases cc)
  from upd_for_canal_ok [OF assms, of canais "([], tr)"] obtain ps tr1 where
    c: "upd_for_canal up canais ([], tr) = Inr (ps, tr1)" by force
  from Cons.IH [of "(dict_setitem todas categoria (JList ps), tr1)"] s cc c show ?case by simp
qed

lemma api_for_c_ok:
  assumes "upstream_ok up"
  shows "\<forall>c\<in>set cs. channel_ok c \<Longrightarrow> \<exists>s'. api_for_c up cs s = Inr s'"
proof (induction cs arbitrary: s)
  case Nil
  show ?case by simp
next
  case (Cons c cs)
  obtain a tr where s: "s = (a, tr)" by (cases s)
  from Cons.prems obtain nome where t: "getitem c (Key ''title'') = Inr nome"
    unfolding channel_ok_def has_key_getitem by auto
  let ?req = "PlaylistsSearch nome 5"
  from assms have rl: "result_is_list (up ?req)" and
    ps: "\<forall>p\<in>set (result_items up ?req). playlist_ok p"
    unfolding upstream_ok_def by blast+
  note r = result_is_list_items [of up ?req, OF rl]
  from api_for_p_ok [OF ps, of nome a] obtain a1 where
    p: "api_for_p nome (result_items up ?req) a = Inr a1" by blast
  from Cons.prems have "\<forall>c\<in>set cs. channel_ok c" by simp
  from Cons.IH [OF this, of "(a1, tr @ [?req])"] s t r p show ?case by simp
qed

lemma api_for_canal_ok:
  assumes "upstream_ok up"
  shows "\<exists>s'. api_for_canal up canais s = Inr s'"
proof (induction canais arbitrary: s)
  case Nil
  show ?case by simp
next
  case (Cons canal canais)
  obtain a tr where s: "s = (a, tr)" by (cases s)
  let ?req = "ChannelsSearch canal 3"
  from assms have rl: "result_is_list (up ?req)" and
    cs: "\<forall>c\<in>set (result_items up ?req). channel_ok c"
    unfolding upstream_ok_def by blast+
  note r = result_is_list_items [of up ?req, OF rl]
  from api_for_c_ok [OF assms cs, of "(a, tr @ [?req])"] obtain s1 where
    c: "api_for_c up (result_items up ?req) (a, tr @ [?req]) = Inr s1" by blast
  from Cons.IH [of s1] s r c show ?case by simp
qed

lemma atualizar_playlists_ok:
  assumes "upstream_ok up"
  shows "\<exists>w'. atualizar_playlists up now w = Inr w'"
proof -
  from upd_for_categoria_ok [OF assms, of "categorias_canais w" "([], requests w)"]
  obtain todas tr where
    "upd_for_categoria up (categorias_canais w) ([], requests w) = Inr (todas, tr)"
    by force
  then show ?thesis by (simp add: atualizar_playlists_def)
qed

lemma sugerir_playlists_ok:
  assumes "upstream_ok up"
  shows "\<exists>v w'. sugerir_playlists up categoria w = Inr (v, w')"
proof (cases "categoria \<in> fst ` set (categorias_canais w)")
  case False
  then show ?thesis by (simp add: sugerir_playlists_def)
next
  case True
  then obtain canais where m: "map_of (categorias_canais w) categoria = Some canais"
    by (metis map_of_eq_None_iff not_None_eq)
  from api_for_canal_ok [OF assms, of canais "(([], {}), requests w)"]
  obtain acc seen tr where
    "api_for_canal up canais (([], {}), requests w) = Inr ((acc, seen), tr)"
    by (metis surj_pair)
  with True m show ?thesis by (simp add: sugerir_playlists_def)
qed

section \<open>The unguarded thumbnail access\<close>

lemma example_upstream_ok: "upstream_ok example_upstream"
proof -
  have c: "result_is_list (example_upstream (ChannelsSearch q n)) \<and>
      (\<forall>c\<in>set (result_items example_upstream (ChannelsSearch q n)). channel_ok c)" for q n
  proof -
    have "set (take n [JDict [(''title'', JStr ''Canal X'')]]) \<subseteq> {JDict [(''title'', JStr ''Canal X'')]}"
      using set_take_subset [of n "[JDict [(''title'', JStr ''Canal X'')]]"] by simp
    then show ?thesis
      by (auto simp: result_is_list_def result_items_def example_upstream_def and_then_def
          channel_ok_def)
  qed
  have p: "result_is_list (example_upstream (PlaylistsSearch q n)) \<and>
      (\<forall>p\<in>set (result_items example_upstream (PlaylistsSearch q n)). playlist_ok p)" for q n
  proof -
    have "set (take n [example_playlist_a, example_playlist_b]) \<subseteq>
        {example_playlist_a, example_playlist_b}"
      using set_take_subset [of n "[example_playlist_a, example_playlist_b]"] by simp
    moreover have "playlist_ok example_playlist_a" "playlist_ok example_playlist_b"
      by (simp_all add: playlist_ok_def thumbnails_ok_def link_of_def example_playlist_a_def
          example_playlist_b_def)
    ultimately show ?thesis
      by (auto simp: result_is_list_def result_items_def example_upstream_def and_then_def)
  qed
  from c p show ?thesis unfolding upstream_ok_def by blast
qed

lemma example_bare_not_ok: "\<not> thumbnails_ok example_playlist_bare"
  by (simp add: thumbnails_ok_def example_playlist_bare_def)

lemma example_bare_visited:
  "(example_playlist_bare, JStr ''Canal X'') \<in>
     set (visited example_bare_upstream [''Marketing Total'', ''Growth Hacker''])"
  by (simp add: visited_def visited_canal_def visited_c_def result_items_def title_of_def
      example_bare_upstream_def and_then_def)

text \<open>
  C10. Neither entry point tests a playlist result before it evaluates
  \<^verbatim>\<open>p['thumbnails'][0]['url']\<close>. When every answer of the upstream is well formed (a
  \<^verbatim>\<open>'result'\<close> list; a title in every channel record; a title, a link and a non-empty
  thumbnails list whose first element has a url in every playlist record) both entry
  points return. A subscript with a missing key fails, and on a playlist result without
  such a thumbnails list the access fails, and with it the construction of the record:
  the batch updater fails on every run that visits such a result, the endpoint on every
  run in which such a result is the first of its link (a result whose link was seen
  before is skipped before the access).
\<close>

theorem thumbnail_access_safety:
  "(upstream_ok up \<longrightarrow>
      (\<exists>w'. atualizar_playlists up now w = Inr w') \<and>
      (\<exists>v w'. sugerir_playlists up categoria w = Inr (v, w'))) \<and>
   (\<not> has_key j k \<longrightarrow> (\<exists>e. getitem j (Key k) = Inl e)) \<and>
   (\<not> thumbnails_ok p \<longrightarrow>
      (\<exists>e. thumbnail_url p = Inl e) \<and> (\<exists>e. playlist_record p nome = Inl e)) \<and>
   (cc \<in> set (categorias_canais w) \<and> x \<in> set (visited up (snd cc)) \<and> \<not> thumbnails_ok (fst x) \<longrightarrow>
      (\<exists>e. atualizar_playlists up now w = Inl e)) \<and>
   (map_of (categorias_canais w) categoria = Some canais \<and>
    y \<in> set (keep_first visited_link (visited up canais)) \<and> \<not> thumbnails_ok (fst y) \<longrightarrow>
      (\<exists>e. sugerir_playlists up categoria w = Inl e))"
proof (intro conjI impI)
  assume "upstream_ok up"
  then show "\<exists>w'. atualizar_playlists up now w = Inr w'"
    and "\<exists>v w'. sugerir_playlists up categoria w = Inr (v, w')"
    by (rule atualizar_playlists_ok, rule sugerir_playlists_ok)
next
  assume "\<not> has_key j k"
  then show "\<exists>e. getitem j (Key k) = Inl e"
    unfolding has_key_getitem by (cases "getitem j (Key k)") auto
next
  assume "\<not> thumbnails_ok p"
  then show "\<exists>e. thumbnail_url p = Inl e"
    unfolding thumbnails_ok_iff by (cases "thumbnail_url p") auto
next
  assume "\<not> thumbnails_ok p"
  then show "\<exists>e. playlist_record p nome = Inl e"
    by (rule playlist_record_fails)
next
  assume a: "cc \<in> set (categorias_canais w) \<and> x \<in> set (visited up (snd cc)) \<and>
      \<not> thumbnails_ok (fst x)"
  show "\<exists>e. atualizar_playlists up now w = Inl e"
  proof (cases "atualizar_playlists up now w")
    case (Inl e)
    then show ?thesis by blast
  next
    case (Inr w')
    then obtain todas tr where
      "upd_for_categoria up (categorias_canais w) ([], requests w) = Inr (todas, tr)"
      by (rule atualizar_playlists_run)
    from upd_for_categoria_char [OF this] a have "build_record x = Inr (record_of x)"
      by blast
    moreover from a playlist_record_fails [of "fst x" "snd x"]
    obtain e where "build_record x = Inl e"
      unfolding build_record_def by blast
    ultimately show ?thesis by simp
  qed
next
  assume a: "map_of (categorias_canais w) categoria = Some canais \<and>
    y \<in> set (keep_first visited_link (visited up canais)) \<and> \<not> thumbnails_ok (fst y)"
  show "\<exists>e. sugerir_playlists up categoria w = Inl e"
  proof (cases "sugerir_playlists up categoria w")
    case (Inl e)
    then show ?thesis by blast
  next
    case (Inr r)
    obtain v w' where "r = (v, w')" by (cases r)
    with Inr have "sugerir_playlists up categoria w = Inr (v, w')" by simp
    from sugerir_playlists_char(3) [OF this conjunct1 [OF a]] a
    have "build_record y = Inr (record_of y)"
      by blast
    moreover from a playlist_record_fails [of "fst y" "snd y"]
    obtain e where "build_record y = Inl e"
      unfolding build_record_def by blast
    ultimately show ?thesis by simp
  qed
qed

theorem thumbnail_access_safety_witness:
  "upstream_ok example_upstream \<and>
   (\<exists>w'. atualizar_playlists example_upstream example_now example_updater_world = Inr w') \<and>
   (\<exists>v w'. sugerir_playlists example_upstream ''Marketing Digital'' example_api_world = Inr (v, w')) \<and>
   \<not> thumbnails_ok example_playlist_bare \<and>
   (\<exists>e. thumbnail_url example_playlist_bare = Inl e) \<and>
   (''Marketing Digital'', [''Marketing Total'', ''Growth Hacker'']) \<in>
     set (categorias_canais example_updater_world) \<and>
   (example_playlist_bare, JStr ''Canal X'') \<in>
     set (visited example_bare_upstream [''Marketing Total'', ''Growth Hacker'']) \<and>
   (\<exists>e. atualizar_playlists example_bare_upstream example_now example_updater_world = Inl e)"
proof -
  note T = thumbnail_access_safety [of example_upstream example_now example_updater_world]
  note U = thumbnail_access_safety [of example_upstream example_now example_api_world
      "''Marketing Digital''"]
  note V = thumbnail_access_safety [of example_bare_upstream example_now example_updater_world _ _ _
      example_playlist_bare _
      "(''Marketing Digital'', [''Marketing Total'', ''Growth Hacker''])"
      "(example_playlist_bare, JStr ''Canal X'')"]
  from T example_upstream_ok
  have 1: "\<exists>w'. atualizar_playlists example_upstream example_now example_updater_world = Inr w'"
    by blast
  from U example_upstream_ok
  have 2: "\<exists>v w'. sugerir_playlists example_upstream ''Marketing Digital'' example_api_world = Inr (v, w')"
    by blast
  from V example_bare_not_ok
  have 3: "\<exists>e. thumbnail_url example_playlist_bare = Inl e"
    by blast
  from V example_marketing_member example_bare_visited example_bare_not_ok
  have 4: "\<exists>e. atualizar_playlists example_bare_upstream example_now example_updater_world = Inl e"
    by simp
  from example_upstream_ok 1 2 example_bare_not_ok 3 example_marketing_member
    example_bare_visited 4
  show ?thesis by (intro conjI)
qed

end
